theory Spec2Isabelle
  imports Complex_Main
begin

section \<open>Tensors, errors and the operations of the tensor library\<close>

text \<open>
  The module \<^verbatim>\<open>pyro/distributions/lkj.py\<close> computes on tensors of floating-point
  numbers. A floating-point number is taken as the real number it denotes: a
  one-dimensional tensor is a list of reals, a two-dimensional tensor is the list of its
  rows. The forward map of the vine transform and the validator, whose results depend
  on rounding, take the rounding of the tensor's number format as a parameter \<open>rnd\<close>:
  every arithmetic operation rounds its exact result with it. With \<open>binary32\<close> below
  this is the arithmetic of the tensors the module allocates (\<^verbatim>\<open>torch.zeros\<close> makes
  a tensor of single precision); with the identity it is exact arithmetic. The other
  functions are written in exact arithmetic. Where the tensor library would produce an
  infinity or a not-a-number (a division by zero, the logarithm or the square root of a
  negative number) the real-valued operation of HOL returns a real of its own; the
  theorems below read no entry computed that way.

  Every exception the module can raise is a value: a function that may raise returns
  \<open>error + 'a\<close>, the error on the left.
\<close>

type_synonym vec = "real list"
type_synonym matrix = "real list list"

datatype error =
    ValueError
  | RuntimeError
  | IndexError
  | TypeError
  | NameError string

subsection \<open>Rounding to single precision\<close>

text \<open>
  Rounding to the nearest integer, a tie to the even one; and rounding of a real to the
  nearest number of the format binary32 (24 significant bits, least exponent -126).
  The overflow to an infinity, from \<open>2 ^ 128\<close> on, is not modelled.
\<close>

definition round_even :: "real \<Rightarrow> int" where
  "round_even r =
     (let f = \<lfloor>r\<rfloor> in
      if r - of_int f < 1 / 2 then f
      else if 1 / 2 < r - of_int f then f + 1
      else if even f then f else f + 1)"

definition binary32 :: "real \<Rightarrow> real" where
  "binary32 x =
     (if x = 0 then 0
      else
        let e = max \<lfloor>log 2 \<bar>x\<bar>\<rfloor> (- 126);
            u = 2 powr (of_int e - 23) in
        of_int (round_even (x / u)) * u)"

text \<open>
  A sum of the entries of a tensor that adds them one by one, from the left, rounding
  each partial sum.
\<close>

definition sum_seq :: "(real \<Rightarrow> real) \<Rightarrow> vec \<Rightarrow> real" where
  "sum_seq rnd v = foldl (\<lambda>a t. rnd (a + t)) 0 v"

subsection \<open>Errors\<close>

definition bind_err :: "error + 'a \<Rightarrow> ('a \<Rightarrow> error + 'b) \<Rightarrow> error + 'b" where
  "bind_err m f = (case m of Inl e \<Rightarrow> Inl e | Inr v \<Rightarrow> f v)"

text \<open>\<^verbatim>\<open>x.shape[0]\<close> and \<^verbatim>\<open>x.shape[1]\<close> of a two-dimensional tensor.\<close>

definition shape0 :: "matrix \<Rightarrow> nat" where
  "shape0 x = length x"

definition shape1 :: "matrix \<Rightarrow> nat" where
  "shape1 x = (case x of [] \<Rightarrow> 0 | r # _ \<Rightarrow> length r)"

text \<open>A well-formed square matrix of order \<open>D\<close>: \<open>D\<close> rows of \<open>D\<close> entries.\<close>

definition square :: "nat \<Rightarrow> matrix \<Rightarrow> bool" where
  "square D x \<longleftrightarrow> length x = D \<and> list_all (\<lambda>r. length r = D) x"

text \<open>
  \<^verbatim>\<open>x.tril(k)\<close>: the entries on and below the \<open>k\<close>-th diagonal, zero elsewhere.
\<close>

definition tril :: "int \<Rightarrow> matrix \<Rightarrow> matrix" where
  "tril k x =
     map (\<lambda>i. map (\<lambda>j. if int j \<le> int i + k then x ! i ! j else 0) [0..<length (x ! i)])
       [0..<length x]"

text \<open>\<^verbatim>\<open>x.diagonal(dim1=-2, dim2=-1)\<close> and \<^verbatim>\<open>x.diag()\<close> of a matrix.\<close>

definition diagonal :: "matrix \<Rightarrow> vec" where
  "diagonal x = map (\<lambda>i. x ! i ! i) [0..<min (shape0 x) (shape1 x)]"

text \<open>\<^verbatim>\<open>x.pow(2).sum(-1)\<close> (also \<^verbatim>\<open>.sum(1)\<close>): the sum of squares of every row.\<close>

definition pow2 :: "vec \<Rightarrow> vec" where
  "pow2 v = map (\<lambda>t. t\<^sup>2) v"

definition pow2_sum_rows :: "matrix \<Rightarrow> vec" where
  "pow2_sum_rows x = map (\<lambda>r. sum_list (pow2 r)) x"

text \<open>
  \<^verbatim>\<open>(a == b).view(-1)\<close>: the entrywise comparison of two matrices of one shape,
  flattened.
\<close>

definition eq_flat :: "matrix \<Rightarrow> matrix \<Rightarrow> bool list" where
  "eq_flat a b = concat (map2 (\<lambda>r s. map2 (\<lambda>u v. u = v) r s) a b)"

text \<open>
  \<^verbatim>\<open>t.min(-1)[0]\<close> of a tensor of truth values: the conjunction of the entries. The
  reduction of a tensor with no entry raises \<^verbatim>\<open>IndexError\<close>.
\<close>

definition min_bool :: "bool list \<Rightarrow> error + bool" where
  "min_bool bs = (if bs = [] then Inl IndexError else Inr (list_all id bs))"

section \<open>The constraint \<^verbatim>\<open>_CorrCholesky\<close>\<close>

text \<open>
  \<^verbatim>\<open>check(value)\<close>. The squares, the sum of each row, the difference to 1 and the
  literal \<^verbatim>\<open>1e-6\<close> are numbers of the format of \<^verbatim>\<open>value\<close>: each is rounded
  with \<open>rnd\<close>. The order in which \<^verbatim>\<open>sum(-1)\<close> adds the entries of a row is the
  tensor library's; the reduction is the parameter \<open>fsum\<close>.
\<close>

definition check :: "(real \<Rightarrow> real) \<Rightarrow> (vec \<Rightarrow> real) \<Rightarrow> matrix \<Rightarrow> error + bool" where
  "check rnd fsum v =
     (let value_tril = tril 0 v in
      bind_err (min_bool (eq_flat value_tril v)) (\<lambda>lower_triangular.
      bind_err (min_bool (map (\<lambda>t. t > 0) (diagonal v))) (\<lambda>positive_diagonal.
      bind_err (min_bool (map (\<lambda>s. \<bar>rnd (s - 1)\<bar> < rnd (1 / 10 ^ 6))
                            (map (\<lambda>r. fsum (map rnd (pow2 r))) v)))
        (\<lambda>unit_norm_row.
      Inr (lower_triangular \<and> positive_diagonal \<and> unit_norm_row)))))"

section \<open>Slices, index assignment and broadcasting\<close>

text \<open>\<^verbatim>\<open>v[a:b]\<close>: a slice is clipped to the tensor, it never raises.\<close>

definition slice :: "vec \<Rightarrow> nat \<Rightarrow> nat \<Rightarrow> vec" where
  "slice v a b = drop a (take b v)"

text \<open>\<^verbatim>\<open>v[k]\<close> raises when \<open>k\<close> is out of range.\<close>

definition index :: "vec \<Rightarrow> nat \<Rightarrow> error + real" where
  "index v k = (if k < length v then Inr (v ! k) else Inl IndexError)"

text \<open>\<^verbatim>\<open>x[r:, c]\<close>: column \<open>c\<close> from row \<open>r\<close> down.\<close>

definition col_from :: "matrix \<Rightarrow> nat \<Rightarrow> nat \<Rightarrow> error + vec" where
  "col_from x r c =
     (if shape1 x \<le> c then Inl IndexError else Inr (map (\<lambda>row. row ! c) (drop r x)))"

text \<open>\<^verbatim>\<open>x[r, c] = t\<close>.\<close>

definition assign_entry :: "matrix \<Rightarrow> nat \<Rightarrow> nat \<Rightarrow> real \<Rightarrow> error + matrix" where
  "assign_entry x r c t =
     (if r < shape0 x \<and> c < shape1 x then Inr (x[r := (x ! r)[c := t]]) else Inl IndexError)"

text \<open>
  \<^verbatim>\<open>x[r:, c] = v\<close>: the value has as many entries as the slice, or a single entry
  that is copied to every row of the slice.
\<close>

definition assign_col_from :: "matrix \<Rightarrow> nat \<Rightarrow> nat \<Rightarrow> vec \<Rightarrow> error + matrix" where
  "assign_col_from x r c v =
     (if shape1 x \<le> c then Inl IndexError
      else if length v = length x - r then
        Inr (map (\<lambda>k. if r \<le> k then (x ! k)[c := v ! (k - r)] else x ! k) [0..<length x])
      else if length v = 1 then
        Inr (map (\<lambda>k. if r \<le> k then (x ! k)[c := v ! 0] else x ! k) [0..<length x])
      else Inl RuntimeError)"

text \<open>\<^verbatim>\<open>v[k] = t\<close> on a one-dimensional tensor.\<close>

definition assign_index :: "vec \<Rightarrow> nat \<Rightarrow> real \<Rightarrow> error + vec" where
  "assign_index v k t = (if k < length v then Inr (v[k := t]) else Inl IndexError)"

text \<open>
  An entrywise binary operation on two one-dimensional tensors. Equal lengths combine
  entry by entry; a tensor of a single entry is stretched to the other's length; any
  other pair of lengths raises. The in-place form \<^verbatim>\<open>a += b\<close> keeps the shape of
  \<open>a\<close>, so only \<open>b\<close> may be stretched.
\<close>

definition broadcast2 :: "(real \<Rightarrow> real \<Rightarrow> real) \<Rightarrow> vec \<Rightarrow> vec \<Rightarrow> error + vec" where
  "broadcast2 f a b =
     (if length a = length b then Inr (map2 f a b)
      else if length a = 1 then Inr (map (\<lambda>t. f (a ! 0) t) b)
      else if length b = 1 then Inr (map (\<lambda>t. f t (b ! 0)) a)
      else Inl RuntimeError)"

definition broadcast_inplace :: "(real \<Rightarrow> real \<Rightarrow> real) \<Rightarrow> vec \<Rightarrow> vec \<Rightarrow> error + vec" where
  "broadcast_inplace f a b =
     (if length a = length b then Inr (map2 f a b)
      else if length b = 1 then Inr (map (\<lambda>t. f t (b ! 0)) a)
      else Inl RuntimeError)"

text \<open>\<^verbatim>\<open>torch.zeros((n, m))\<close>.\<close>

definition zeros :: "nat \<Rightarrow> nat \<Rightarrow> matrix" where
  "zeros n m = replicate n (replicate m 0)"

text \<open>
  \<^verbatim>\<open>torch.linspace(start, end, steps)\<close>: \<open>steps\<close> points from \<open>start\<close> to
  \<open>stop\<close>, evenly spaced; a negative number of steps raises.
\<close>

definition linspace :: "real \<Rightarrow> real \<Rightarrow> int \<Rightarrow> error + vec" where
  "linspace start stop steps =
     (if steps < 0 then Inl RuntimeError
      else if steps = 1 then Inr [start]
      else Inr (map (\<lambda>k. start + real k * ((stop - start) / (real_of_int steps - 1)))
                  [0..<nat steps]))"

text \<open>A \<^verbatim>\<open>for\<close> loop over a list of indices; an exception in the body leaves the loop.\<close>

fun for_loop :: "(nat \<Rightarrow> 's \<Rightarrow> error + 's) \<Rightarrow> nat list \<Rightarrow> 's \<Rightarrow> error + 's" where
  "for_loop body [] s = Inr s"
| "for_loop body (j # js) s = bind_err (body j s) (for_loop body js)"

section \<open>Names of the module\<close>

text \<open>
  A name that is read in a function body and is neither a local variable nor bound at
  module level nor a builtin raises \<^verbatim>\<open>NameError\<close> when the statement runs. The
  module binds the names of its imports, its classes, \<^verbatim>\<open>corr_cholesky_constraint\<close>
  and \<^verbatim>\<open>_transform_to_corr_cholesky\<close>; the builtins listed are the ones the
  module reads.
\<close>

definition module_globals :: "string list" where
  "module_globals =
     [''absolute_import'', ''division'', ''print_function'', ''math'', ''torch'',
      ''biject_to'', ''constraints'', ''transform_to'', ''Constraint'', ''Transform'',
      ''ComposeTransform'', ''Beta'', ''TorchDistribution'', ''_CorrCholesky'',
      ''corr_cholesky_constraint'', ''_TanhTransform'',
      ''_PartialCorrToCorrCholeskyTransform'', ''CorrCholeskyTransform'',
      ''_transform_to_corr_cholesky'', ''LKJCholeskyFactor'']"

definition builtins :: "string list" where
  "builtins = [''ValueError'', ''any'', ''int'', ''isinstance'', ''range'', ''super'']"

definition resolve :: "string \<Rightarrow> error + unit" where
  "resolve name =
     (if name \<in> set module_globals \<or> name \<in> set builtins then Inr ()
      else Inl (NameError name))"

section \<open>The transform \<^verbatim>\<open>_TanhTransform\<close>\<close>

definition TanhTransform_call :: "vec \<Rightarrow> vec" where
  "TanhTransform_call x = map tanh x"

definition TanhTransform_inverse :: "vec \<Rightarrow> vec" where
  "TanhTransform_inverse y = map (\<lambda>t. ln ((1 + t) / (1 - t)) / 2) y"

definition TanhTransform_log_abs_det_jacobian :: "vec \<Rightarrow> vec \<Rightarrow> vec" where
  "TanhTransform_log_abs_det_jacobian x y = map (\<lambda>t. (- 2) * ln (cosh t)) y"

section \<open>The transform \<^verbatim>\<open>_PartialCorrToCorrCholeskyTransform\<close>\<close>

subsection \<open>The forward map \<^verbatim>\<open>_call\<close>\<close>

text \<open>The variables the loop of \<^verbatim>\<open>_call\<close> updates.\<close>

record call_state =
  call_x :: matrix
  call_i :: nat
  call_last_squared_x :: "vec option"
  call_current_x :: vec

text \<open>
  The body of \<^verbatim>\<open>for j in range(1, D)\<close>. Every square, sum, difference, square
  root and product is rounded with \<open>rnd\<close>.
\<close>

definition call_body ::
    "(real \<Rightarrow> real) \<Rightarrow> nat \<Rightarrow> vec \<Rightarrow> nat \<Rightarrow> call_state \<Rightarrow> error + call_state" where
  "call_body rnd D z j s =
     (let distance_to_copy = D - 1 - j;
          new_z = slice z (call_i s) (call_i s + distance_to_copy) in
      bind_err (case call_last_squared_x s of
                  None \<Rightarrow> Inr (map rnd (pow2 (call_current_x s)))
                | Some l \<Rightarrow> broadcast2 (\<lambda>a b. rnd (a + b)) (drop 1 l)
                             (map rnd (pow2 (call_current_x s))))
        (\<lambda>last_squared_x.
      bind_err (index last_squared_x 0) (\<lambda>l0.
      bind_err (assign_entry (call_x s) j j (rnd (sqrt (rnd (1 - l0))))) (\<lambda>x1.
      bind_err (broadcast2 (\<lambda>a b. rnd (a * b)) new_z
                  (map (\<lambda>t. rnd (sqrt (rnd (1 - t)))) (drop 1 last_squared_x)))
        (\<lambda>current_x.
      bind_err (assign_col_from x1 (j + 1) j current_x) (\<lambda>x2.
      Inr \<lparr>call_x = x2, call_i = call_i s + distance_to_copy,
           call_last_squared_x = Some last_squared_x, call_current_x = current_x\<rparr>))))))"

text \<open>
  \<^verbatim>\<open>_call\<close>: the order \<open>D\<close> is read off the length of \<open>z\<close>, which has to be
  \<open>D * (D - 1) / 2\<close>; column 0 is the first \<open>D - 1\<close> entries of \<open>z\<close>, the loop
  fills the columns from 1 on. The order is computed by \<^verbatim>\<open>math.sqrt\<close> on the
  length, outside the tensor arithmetic.
\<close>

definition PartialCorrToCorrCholeskyTransform_call ::
    "(real \<Rightarrow> real) \<Rightarrow> vec \<Rightarrow> error + matrix" where
  "PartialCorrToCorrCholeskyTransform_call rnd z =
     (let Dr = (1 + sqrt (1 + 8 * real (length z))) / 2 in
      if frac Dr \<noteq> 0 then Inl ValueError
      else
        let D = nat \<lfloor>Dr\<rfloor>;
            x = zeros D D in
        bind_err (assign_entry x 0 0 1) (\<lambda>x.
        let current_x = slice z 0 (D - 1) in
        bind_err (assign_col_from x 1 0 current_x) (\<lambda>x.
        bind_err (for_loop (call_body rnd D z) [1..<D]
                    \<lparr>call_x = x, call_i = D - 1, call_last_squared_x = None,
                     call_current_x = current_x\<rparr>) (\<lambda>s.
        Inr (call_x s)))))"

subsection \<open>The inverse map \<^verbatim>\<open>_inverse\<close>\<close>

text \<open>
  The body of the loop of \<^verbatim>\<open>_inverse\<close> is the \<^verbatim>\<open>if\<close> statement alone: the
  two statements after it stand at the indentation of the \<^verbatim>\<open>for\<close> and run once,
  after the loop. The loop updates \<^verbatim>\<open>last_squared_x\<close> only; \<^verbatim>\<open>current_x\<close> stays
  the first column all the way through.
\<close>

definition inverse_body :: "vec \<Rightarrow> nat \<Rightarrow> vec option \<Rightarrow> error + vec option" where
  "inverse_body current_x j last_squared_x =
     (case last_squared_x of
        None \<Rightarrow> Inr (Some (pow2 current_x))
      | Some l \<Rightarrow> bind_err (broadcast_inplace (+) l (pow2 (drop 1 current_x)))
                   (\<lambda>l'. Inr (Some l')))"

text \<open>
  After the loop \<^verbatim>\<open>j\<close> holds the last index of \<^verbatim>\<open>range(1, D)\<close>; when the range
  is empty the name is unbound and reading it raises. \<^verbatim>\<open>last_squared_x\<close> is still
  \<^verbatim>\<open>None\<close> then, but the read of \<^verbatim>\<open>j\<close> comes first.
\<close>

definition PartialCorrToCorrCholeskyTransform_inverse :: "matrix \<Rightarrow> error + vec" where
  "PartialCorrToCorrCholeskyTransform_inverse x =
     (if shape0 x \<noteq> shape1 x then Inl ValueError
      else
        let D = shape0 x in
        bind_err (col_from x 1 0) (\<lambda>z0.
        let current_x = z0 in
        bind_err (for_loop (inverse_body current_x) [1..<D] None) (\<lambda>last_squared_x.
        if [1..<D] = [] then Inl (NameError ''j'')
        else
          let j = last [1..<D] in
          bind_err (col_from x j j) (\<lambda>current_x.
          case last_squared_x of
            None \<Rightarrow> Inl TypeError
          | Some l \<Rightarrow>
              bind_err (broadcast2 (/) current_x (map (\<lambda>t. sqrt (1 - t)) l)) (\<lambda>q.
              Inr (z0 @ q))))))"

subsection \<open>\<^verbatim>\<open>log_abs_det_jacobian\<close>\<close>

definition PartialCorrToCorrCholeskyTransform_log_abs_det_jacobian ::
    "matrix \<Rightarrow> vec \<Rightarrow> real" where
  "PartialCorrToCorrCholeskyTransform_log_abs_det_jacobian x z =
     sum_list (map (\<lambda>s. ln (1 - s)) (pow2_sum_rows (tril (- 1) x))) * (1 / 2)"

section \<open>The composed transform \<^verbatim>\<open>CorrCholeskyTransform\<close>\<close>

text \<open>
  \<^verbatim>\<open>ComposeTransform([_TanhTransform(), _PartialCorrToCorrCholeskyTransform()])\<close>
  applies the parts in order; its inverse applies the inverses of the parts in the
  reverse order. The composition is written in exact arithmetic.
\<close>

definition CorrCholeskyTransform_call :: "vec \<Rightarrow> error + matrix" where
  "CorrCholeskyTransform_call u =
     PartialCorrToCorrCholeskyTransform_call (\<lambda>t. t) (TanhTransform_call u)"

definition CorrCholeskyTransform_inverse :: "matrix \<Rightarrow> error + vec" where
  "CorrCholeskyTransform_inverse x =
     bind_err (PartialCorrToCorrCholeskyTransform_inverse x)
       (\<lambda>z. Inr (TanhTransform_inverse z))"

section \<open>The distribution \<^verbatim>\<open>LKJCholeskyFactor\<close>\<close>

text \<open>
  The fields of an instance. \<^verbatim>\<open>_generating_distribution\<close> is
  \<^verbatim>\<open>Beta(concentrations, concentrations)\<close>; the record keeps its parameter. The
  concentration \<open>eta\<close> is a single number (the tensor of one entry the constructor
  makes of it).
\<close>

record LKJCholeskyFactor =
  self_concentrations :: vec
  self_eta :: real
  self_d :: nat
  self_lkj_constant :: "real option"

text \<open>
  The inner loop \<^verbatim>\<open>for j in range(k+1, d)\<close> of the constructor writes the running
  \<open>alpha\<close> to the next entry; the outer loop \<^verbatim>\<open>for k in range(d-1)\<close> lowers
  \<open>alpha\<close> by one half first.
\<close>

definition init_inner :: "real \<Rightarrow> nat \<Rightarrow> vec \<times> nat \<Rightarrow> error + vec \<times> nat" where
  "init_inner alpha j s =
     (case s of (concentrations, i) \<Rightarrow>
        bind_err (assign_index concentrations i alpha) (\<lambda>c. Inr (c, i + 1)))"

definition init_outer :: "nat \<Rightarrow> nat \<Rightarrow> real \<times> vec \<times> nat \<Rightarrow> error + real \<times> vec \<times> nat" where
  "init_outer d k s =
     (case s of (alpha, concentrations, i) \<Rightarrow>
        let alpha = alpha - 1 / 2 in
        bind_err (for_loop (init_inner alpha) [k + 1..<d] (concentrations, i))
          (\<lambda>(c, i). Inr (alpha, c, i)))"

text \<open>
  \<^verbatim>\<open>v.expand(n)\<close> of a one-dimensional tensor: a tensor of \<open>n\<close> entries stays as
  it is, a tensor of a single entry is stretched to \<open>n\<close> entries, any other number
  of entries raises. \<^verbatim>\<open>eta.new()\<close> is a tensor with no entry.
\<close>

definition expand :: "vec \<Rightarrow> nat \<Rightarrow> error + vec" where
  "expand v n =
     (if length v = n then Inr v
      else if length v = 1 then Inr (replicate n (v ! 0))
      else Inl RuntimeError)"

text \<open>
  \<^verbatim>\<open>__init__(d, eta)\<close>. The exception of the guard is named
  \<^verbatim>\<open>ValueException\<close>; the name is resolved when the \<^verbatim>\<open>raise\<close> statement runs.
  The concentration vector is allocated by \<^verbatim>\<open>eta.new().expand(vector_size)\<close>,
  before the loops. The constructor of \<^verbatim>\<open>Beta\<close> is code of another module; the
  model takes it as the parameter \<open>Beta\<close>, which may raise.
\<close>

definition init ::
    "(vec \<Rightarrow> vec \<Rightarrow> error + unit) \<Rightarrow> nat \<Rightarrow> real \<Rightarrow> error + LKJCholeskyFactor" where
  "init Beta d eta =
     (if eta \<le> 0 then bind_err (resolve ''ValueException'') (\<lambda>_. Inl ValueError)
      else
        let vector_size = (d * (d - 1)) div 2;
            alpha = eta + (1 / 2) * (real d - 1) in
        bind_err (expand [] vector_size) (\<lambda>concentrations.
        bind_err (for_loop (init_outer d) [0..<d - 1] (alpha, concentrations, 0))
          (\<lambda>(alpha, concentrations, i).
        bind_err (Beta concentrations concentrations) (\<lambda>_.
        Inr \<lparr>self_concentrations = concentrations, self_eta = eta, self_d = d,
             self_lkj_constant = None\<rparr>))))"

text \<open>
  \<^verbatim>\<open>lkj_constant(self, eta, K)\<close>. \<^verbatim>\<open>torch.lgamma\<close> is a function of the tensor
  library; the model takes it as the parameter \<open>lgamma\<close>. The method returns its
  value and the instance, whose cache it may have written.
\<close>

definition lkj_constant ::
    "(real \<Rightarrow> real) \<Rightarrow> LKJCholeskyFactor \<Rightarrow> real \<Rightarrow> int \<Rightarrow> error + real \<times> LKJCholeskyFactor" where
  "lkj_constant lgamma self eta K =
     (case self_lkj_constant self of
        Some c \<Rightarrow> Inr (c, self)
      | None \<Rightarrow>
          let Km1 = K - 1;
              constant = lgamma (eta + (1 / 2) * real_of_int Km1) * real_of_int Km1 in
          bind_err (linspace 1 (real_of_int Km1) Km1) (\<lambda>k.
          bind_err (broadcast2 (+) (map (\<lambda>t. t * (ln pi * (1 / 2))) k)
                      (map (\<lambda>t. lgamma (eta + (1 / 2) * (real_of_int Km1 - t))) k)) (\<lambda>terms.
          let constant = constant - sum_list terms in
          Inr (constant, self\<lparr>self_lkj_constant := Some constant\<rparr>))))"

text \<open>\<^verbatim>\<open>v.tail(n)\<close>: the last \<open>n\<close> entries.\<close>

definition tail :: "nat \<Rightarrow> vec \<Rightarrow> vec" where
  "tail n v = drop (length v - n) v"

text \<open>
  \<^verbatim>\<open>log_prob(self, x)\<close>. The first statement calls \<^verbatim>\<open>lkj_constant\<close> as a plain
  name, not as \<^verbatim>\<open>self.lkj_constant\<close>, and the bound of \<^verbatim>\<open>linspace\<close> is written
  \<^verbatim>\<open>km1\<close>, not \<^verbatim>\<open>Km1\<close>: both names are resolved when their statement runs.
  Past each resolution the model goes on with the method of the instance and with
  \<^verbatim>\<open>Km1\<close>.
\<close>

definition log_prob ::
    "(real \<Rightarrow> real) \<Rightarrow> LKJCholeskyFactor \<Rightarrow> matrix \<Rightarrow> error + real \<times> LKJCholeskyFactor" where
  "log_prob lgamma self x =
     (let eta = self_eta self in
      bind_err (resolve ''lkj_constant'') (\<lambda>_.
      bind_err (lkj_constant lgamma self eta (int (shape1 x))) (\<lambda>(lp, self).
      let Km1 = int (shape1 x) - 1;
          log_diagonals = map ln (tail (nat Km1) (diagonal x)) in
      bind_err (resolve ''km1'') (\<lambda>_.
      bind_err (linspace (real_of_int Km1 - 1) 0 Km1) (\<lambda>coefficients.
      bind_err (broadcast2 (*) coefficients log_diagonals) (\<lambda>values.
      bind_err (broadcast_inplace (+) values
                  (map (\<lambda>t. t * (eta * 2 + (- 2))) log_diagonals)) (\<lambda>values.
      Inr (sum_list values + lp, self))))))))"

section \<open>The invariant of the loop of \<^verbatim>\<open>_call\<close> in exact arithmetic\<close>

text \<open>The sum of squares of row \<open>r\<close> of a matrix of order \<open>D\<close>.\<close>

definition rowsq :: "nat \<Rightarrow> matrix \<Rightarrow> nat \<Rightarrow> real" where
  "rowsq D x r = (\<Sum>c<D. (x ! r ! c)\<^sup>2)"

text \<open>
  What holds of the variables when the loop is about to run its body for column \<open>j\<close>
  (and, for \<open>j = D\<close>, when the loop is left): the columns before \<open>j\<close> are filled in,
  the rows before \<open>j\<close> are complete, \<^verbatim>\<open>i\<close> is the number of entries of \<open>z\<close>
  consumed so far, \<^verbatim>\<open>current_x\<close> is column \<open>j - 1\<close> from row \<open>j\<close> down, and
  the next value of \<^verbatim>\<open>last_squared_x\<close> is the sum of squares of the rows from
  \<open>j\<close> down.
\<close>

definition call_inv :: "nat \<Rightarrow> nat \<Rightarrow> call_state \<Rightarrow> bool" where
  "call_inv D j s \<longleftrightarrow>
     square D (call_x s)
     \<and> call_i s = (\<Sum>c<j. D - 1 - c)
     \<and> length (call_current_x s) = D - j
     \<and> (case call_last_squared_x s of None \<Rightarrow> j = 1 | Some l \<Rightarrow> length l = D - j + 1)
     \<and> (\<forall>k<D - j.
           (case call_last_squared_x s of None \<Rightarrow> 0 | Some l \<Rightarrow> l ! (k + 1))
             + (call_current_x s ! k)\<^sup>2 = rowsq D (call_x s) (j + k))
     \<and> (\<forall>r<j. rowsq D (call_x s) r = 1 \<and> 0 < call_x s ! r ! r
               \<and> (\<forall>c<D. r < c \<longrightarrow> call_x s ! r ! c = 0))
     \<and> (\<forall>r<D. j \<le> r \<longrightarrow> rowsq D (call_x s) r < 1
               \<and> (\<forall>c<D. j \<le> c \<longrightarrow> call_x s ! r ! c = 0))"

section \<open>Properties of the rounding\<close>

text \<open>
  A real whose scaled value lies within one half of an integer \<open>m\<close> is rounded to
  \<open>m\<close> at that scale. The lemma evaluates \<open>binary32\<close> at a given number.
\<close>

lemma round_even_near:
  assumes "\<bar>r - of_int m\<bar> < 1 / 2"
  shows "round_even r = m"
proof -
  have "\<lfloor>r\<rfloor> = m \<or> \<lfloor>r\<rfloor> = m - 1" using assms by linarith
  then show ?thesis
  proof
    assume f: "\<lfloor>r\<rfloor> = m"
    then have "r - of_int m < 1 / 2" using assms by linarith
    then show ?thesis by (simp add: round_even_def f)
  next
    assume f: "\<lfloor>r\<rfloor> = m - 1"
    have "- (1 / 2) < r - of_int m" using assms by linarith
    then have h: "1 / 2 < r - (of_int m - 1)" by linarith
    then have "\<not> r - (of_int m - 1) < 1 / 2" by linarith
    with h show ?thesis by (simp add: round_even_def f)
  qed
qed

lemma binary32_eq:
  fixes k :: nat
  assumes "1 \<le> \<bar>x\<bar> * 2 ^ k" "\<bar>x\<bar> * 2 ^ k < 2" "k \<le> 126"
    and "\<bar>x * 2 ^ (k + 23) - of_int m\<bar> < 1 / 2"
  shows "binary32 x = of_int m / 2 ^ (k + 23)"
proof -
  have x0: "x \<noteq> 0" using assms(1) by auto
  have p: "2 powr (- real k) = 1 / 2 ^ k"
    by (simp add: powr_minus powr_realpow inverse_eq_divide)
  have q: "2 powr (real_of_int (- int k) + 1) = 2 / 2 ^ k"
  proof -
    have "2 powr (real_of_int (- int k) + 1) = 2 powr (- real k) * 2 powr 1"
      by (simp only: powr_add of_int_minus of_int_of_nat_eq)
    then show ?thesis by (simp add: p)
  qed
  have p': "2 powr (real_of_int (- int k)) = 1 / 2 ^ k"
    using p by simp
  have "1 / 2 ^ k \<le> \<bar>x\<bar>" using assms(1) by (simp add: field_simps)
  moreover have "\<bar>x\<bar> < 2 / 2 ^ k" using assms(2) by (simp add: field_simps)
  ultimately have "2 powr (of_int (- int k)) \<le> \<bar>x\<bar> \<and> \<bar>x\<bar> < 2 powr (of_int (- int k) + 1)"
    unfolding q p' by simp
  then have e: "\<lfloor>log 2 \<bar>x\<bar>\<rfloor> = - int k"
    using x0 by (subst floor_log_eq_powr_iff) simp_all
  have m: "max (- int k) (- 126) = - int k" using assms(3) by simp
  have u: "(2::real) powr (of_int (- int k) - 23) = 1 / 2 ^ (k + 23)"
  proof -
    have "(2::real) powr (of_int (- int k) - 23) = 2 powr (- real (k + 23))" by simp
    also have "\<dots> = 1 / 2 ^ (k + 23)"
      by (simp only: powr_minus powr_realpow inverse_eq_divide)
    finally show ?thesis .
  qed
  have r: "round_even (x / (1 / 2 ^ (k + 23))) = m"
    by (rule round_even_near) (use assms(4) in simp)
  show ?thesis
    unfolding binary32_def Let_def e m u r using x0 by simp
qed

lemma binary32_0: "binary32 0 = 0"
  by (simp add: binary32_def)

lemma binary32_1: "binary32 1 = 1"
  using binary32_eq[of 1 0 8388608] by simp

section \<open>Properties of the validator\<close>

lemma square_nth: "square D x \<Longrightarrow> i < D \<Longrightarrow> length (x ! i) = D"
  by (simp add: square_def list_all_length)

lemma square_length: "square D x \<Longrightarrow> length x = D"
  by (simp add: square_def)

lemma tril_square: "square D x \<Longrightarrow> square D (tril k x)"
  by (simp add: square_def list_all_length tril_def)

lemma tril_nth: "square D x \<Longrightarrow> i < D \<Longrightarrow> j < D \<Longrightarrow>
  tril k x ! i ! j = (if int j \<le> int i + k then x ! i ! j else 0)"
  by (simp add: square_def list_all_length tril_def)

lemma square_eqI:
  assumes "square D a" "square D b" "\<And>i j. i < D \<Longrightarrow> j < D \<Longrightarrow> a ! i ! j = b ! i ! j"
  shows "a = b"
proof (rule nth_equalityI)
  show "length a = length b" using assms by (simp add: square_def)
next
  fix i assume "i < length a"
  then have i: "i < D" using assms by (simp add: square_def)
  show "a ! i = b ! i"
    by (rule nth_equalityI) (use assms i in \<open>simp_all add: square_nth\<close>)
qed

lemma list_all_eq_flat:
  assumes "square D a" "square D b"
  shows "list_all id (eq_flat a b) \<longleftrightarrow> a = b"
proof
  assume "a = b"
  then show "list_all id (eq_flat a b)"
    by (auto simp: eq_flat_def list_all_iff in_set_zip)
next
  assume h: "list_all id (eq_flat a b)"
  show "a = b"
  proof (rule square_eqI[OF assms])
    fix i j assume ij: "i < D" "j < D"
    have la: "length a = D" "length b = D" using assms by (simp_all add: square_def)
    have "(a ! i, b ! i) \<in> set (zip a b)"
      using ij la by (auto simp: in_set_zip)
    moreover have "(a ! i ! j, b ! i ! j) \<in> set (zip (a ! i) (b ! i))"
      using ij assms by (auto simp: in_set_zip square_nth)
    ultimately show "a ! i ! j = b ! i ! j"
      using h by (fastforce simp: eq_flat_def list_all_iff)
  qed
qed

lemma eq_flat_nonempty:
  assumes "square D a" "square D b" "0 < D"
  shows "eq_flat a b \<noteq> []"
proof -
  obtain r a' where a: "a = r # a'" using assms by (cases a) (auto simp: square_def)
  obtain s b' where b: "b = s # b'" using assms by (cases b) (auto simp: square_def)
  have "length r = D" "length s = D" using assms a b by (simp_all add: square_def)
  then have "map2 (\<lambda>u v. u = v) r s \<noteq> []" using assms(3) by (cases r; cases s) auto
  then show ?thesis by (simp add: eq_flat_def a b)
qed

lemma diagonal_square: "square D x \<Longrightarrow> diagonal x = map (\<lambda>i. x ! i ! i) [0..<D]"
  by (cases x) (auto simp: diagonal_def shape0_def shape1_def square_def)

lemma check_square:
  assumes "0 < D" "square D x"
  shows "check rnd fsum x = Inr (tril 0 x = x \<and> (\<forall>i<D. 0 < x ! i ! i)
            \<and> (\<forall>i<D. \<bar>rnd (fsum (map rnd (pow2 (x ! i))) - 1)\<bar> < rnd (1 / 10 ^ 6)))"
proof -
  have ne: "eq_flat (tril 0 x) x \<noteq> []"
    using eq_flat_nonempty[OF tril_square[OF assms(2)] assms(2) assms(1)] .
  have lt: "list_all id (eq_flat (tril 0 x) x) \<longleftrightarrow> tril 0 x = x"
    using list_all_eq_flat[OF tril_square[OF assms(2)] assms(2)] .
  have lx: "length x = D" using assms by (simp add: square_def)
  have pd: "list_all id (map (\<lambda>t. t > 0) (diagonal x)) \<longleftrightarrow> (\<forall>i<D. 0 < x ! i ! i)"
    by (auto simp: diagonal_square[OF assms(2)] list_all_iff)
  have un: "list_all id (map (\<lambda>s. \<bar>rnd (s - 1)\<bar> < rnd (1 / 10 ^ 6))
                (map (\<lambda>r. fsum (map rnd (pow2 r))) x))
      \<longleftrightarrow> (\<forall>i<D. \<bar>rnd (fsum (map rnd (pow2 (x ! i))) - 1)\<bar> < rnd (1 / 10 ^ 6))"
    using lx by (simp add: list_all_length)
  have d: "diagonal x \<noteq> []" "x \<noteq> []"
    using assms lx by (auto simp: diagonal_square)
  show ?thesis
    unfolding check_def Let_def bind_err_def min_bool_def
    using ne d lt pd un by simp
qed

lemma binary32_tolerance: "binary32 (1 / 10 ^ 6) = 8796093 / 8796093022208"
  using binary32_eq[of "1 / 10 ^ 6" 20 8796093] by simp

lemma binary32_11_10: "binary32 (11 / 10) = 9227469 / 8388608"
  using binary32_eq[of "11 / 10" 0 9227469] by simp

lemma binary32_11_10_minus_1: "binary32 (9227469 / 8388608 - 1) = 838861 / 8388608"
  using binary32_eq[of "9227469 / 8388608 - 1" 4 13421776] by simp

lemma binary32_1_0000001: "binary32 (10000001 / 10000000) = 8388609 / 8388608"
  using binary32_eq[of "10000001 / 10000000" 0 8388609] by simp

lemma binary32_1_0000001_minus_1: "binary32 (8388609 / 8388608 - 1) = 1 / 8388608"
  using binary32_eq[of "8388609 / 8388608 - 1" 23 8388608] by simp

lemma binary32_A1: "binary32 ((2652711 / 8388608)\<^sup>2) = 13421775 / 134217728"
  using binary32_eq[of "(2652711 / 8388608)\<^sup>2" 4 13421775] by (simp add: power2_eq_square)

lemma binary32_A2: "binary32 (13421775 / 134217728) = 13421775 / 134217728"
  using binary32_eq[of "13421775 / 134217728" 4 13421775] by simp

lemma binary32_A3: "binary32 (147639503 / 134217728) = 9227469 / 8388608"
  using binary32_eq[of "147639503 / 134217728" 0 9227469] by simp

lemma binary32_B1: "binary32 ((3 / 8192)\<^sup>2) = 9 / 67108864"
  using binary32_eq[of "(3 / 8192)\<^sup>2" 23 9437184] by (simp add: power2_eq_square)

lemma binary32_B2: "binary32 (9 / 67108864) = 9 / 67108864"
  using binary32_eq[of "9 / 67108864" 23 9437184] by simp

lemma binary32_B3: "binary32 (67108873 / 67108864) = 8388609 / 8388608"
  using binary32_eq[of "67108873 / 67108864" 0 8388609] by simp

lemma binary32_C1: "binary32 ((8589935 / 8589934592)\<^sup>2) = 4398047 / 4398046511104"
  using binary32_eq[of "(8589935 / 8589934592)\<^sup>2" 20 8796094] by (simp add: power2_eq_square)

lemma binary32_C2: "binary32 (4398050909151 / 4398046511104) = 1048577 / 1048576"
  using binary32_eq[of "4398050909151 / 4398046511104" 0 8388616] by simp

lemma binary32_C3: "binary32 (1 / 1048576) = 1 / 1048576"
  using binary32_eq[of "1 / 1048576" 20 8388608] by simp

lemma binary32_tolerance_numeral: "binary32 (1 / 1000000) = 8796093 / 8796093022208"
  using binary32_tolerance by simp

lemma row_unit: "sum_seq binary32 (map binary32 (pow2 [1, 0])) = 1"
  by (simp add: sum_seq_def pow2_def binary32_0 binary32_1)

lemma row_A: "sum_seq binary32 (map binary32 (pow2 [2652711 / 8388608, 1])) = 9227469 / 8388608"
  by (simp add: sum_seq_def pow2_def binary32_0 binary32_1 binary32_A1 binary32_A2 binary32_A3)

lemma row_B: "sum_seq binary32 (map binary32 (pow2 [3 / 8192, 1])) = 8388609 / 8388608"
  by (simp add: sum_seq_def pow2_def binary32_0 binary32_1 binary32_B1 binary32_B2 binary32_B3)

lemma row_C: "sum_seq binary32 (map binary32 (pow2 [1, 8589935 / 8589934592])) = 1048577 / 1048576"
  by (simp add: sum_seq_def pow2_def binary32_0 binary32_1 binary32_C1 binary32_C2)

lemma less_2_cases_all: "(\<forall>i<2::nat. P i) \<longleftrightarrow> P 0 \<and> P 1"
  by (auto simp: numeral_2_eq_2 less_Suc_eq)

lemma ex_less_2: "(\<exists>i<2::nat. P i) \<longleftrightarrow> P 0 \<or> P 1"
  by (auto simp: numeral_2_eq_2 less_Suc_eq)

lemma tril_2: "tril 0 [[a, 0], [c, d]] = [[a, 0], [c, d]]"
  by (simp add: tril_def upt_rec)

lemma square_2: "square 2 [[a, b], [c, d]]"
  by (simp add: square_def)

text \<open>
  Claim C9, as amended. For a square matrix of order \<open>D \<ge> 1\<close> the validator returns
  true iff the matrix equals its lower-triangular part, every diagonal entry is positive
  and, for every row, the difference between the computed sum of squares and 1 is below
  \<^verbatim>\<open>1e-6\<close> in absolute value, where the squares, the sum, the difference and the
  bound are the rounded numbers of the tensor's format. In single precision a matrix
  with a row whose computed sum of squares is 1.1 is rejected, and a matrix that is
  lower-triangular with a positive diagonal and rows of computed sum of squares 1 or
  1.0000001 is accepted.
\<close>

theorem check_iff_invariants:
  assumes "0 < D" "square D x"
  shows "check rnd fsum x = Inr (tril 0 x = x \<and> (\<forall>i<D. 0 < x ! i ! i)
            \<and> (\<forall>i<D. \<bar>rnd (fsum (map rnd (pow2 (x ! i))) - 1)\<bar> < rnd (1 / 10 ^ 6)))
    \<and> ((\<exists>i<D. fsum (map binary32 (pow2 (x ! i))) = binary32 (11 / 10))
         \<longrightarrow> check binary32 fsum x = Inr False)
    \<and> (tril 0 x = x \<and> (\<forall>i<D. 0 < x ! i ! i)
         \<and> (\<forall>i<D. fsum (map binary32 (pow2 (x ! i))) = 1
                \<or> fsum (map binary32 (pow2 (x ! i))) = binary32 (10000001 / 10000000))
       \<longrightarrow> check binary32 fsum x = Inr True)"
proof (intro conjI impI)
  show "check rnd fsum x = Inr (tril 0 x = x \<and> (\<forall>i<D. 0 < x ! i ! i)
            \<and> (\<forall>i<D. \<bar>rnd (fsum (map rnd (pow2 (x ! i))) - 1)\<bar> < rnd (1 / 10 ^ 6)))"
    by (rule check_square[OF assms])
  have c: "check binary32 fsum x = Inr (tril 0 x = x \<and> (\<forall>i<D. 0 < x ! i ! i)
            \<and> (\<forall>i<D. \<bar>binary32 (fsum (map binary32 (pow2 (x ! i))) - 1)\<bar>
                     < binary32 (1 / 10 ^ 6)))"
    by (rule check_square[OF assms])
  {
    assume "\<exists>i<D. fsum (map binary32 (pow2 (x ! i))) = binary32 (11 / 10)"
    then obtain i where i: "i < D" "fsum (map binary32 (pow2 (x ! i))) = 9227469 / 8388608"
      by (auto simp: binary32_11_10)
    have "\<not> \<bar>binary32 (fsum (map binary32 (pow2 (x ! i))) - 1)\<bar> < binary32 (1 / 10 ^ 6)"
      unfolding i(2) binary32_11_10_minus_1 binary32_tolerance by simp
    with i(1) have "\<not> (\<forall>i<D. \<bar>binary32 (fsum (map binary32 (pow2 (x ! i))) - 1)\<bar>
                     < binary32 (1 / 10 ^ 6))"
      by blast
    then show "check binary32 fsum x = Inr False" by (simp add: c)
  }
  {
    assume h: "tril 0 x = x \<and> (\<forall>i<D. 0 < x ! i ! i)
         \<and> (\<forall>i<D. fsum (map binary32 (pow2 (x ! i))) = 1
                \<or> fsum (map binary32 (pow2 (x ! i))) = binary32 (10000001 / 10000000))"
    have "\<bar>binary32 (fsum (map binary32 (pow2 (x ! i))) - 1)\<bar> < binary32 (1 / 10 ^ 6)"
      if "i < D" for i
    proof -
      from h that have "fsum (map binary32 (pow2 (x ! i))) = 1
          \<or> fsum (map binary32 (pow2 (x ! i))) = 8388609 / 8388608"
        by (auto simp: binary32_1_0000001)
      then show ?thesis
      proof
        assume e: "fsum (map binary32 (pow2 (x ! i))) = 1"
        show ?thesis unfolding e binary32_tolerance by (simp add: binary32_0)
      next
        assume e: "fsum (map binary32 (pow2 (x ! i))) = 8388609 / 8388608"
        show ?thesis
          unfolding e binary32_1_0000001_minus_1 binary32_tolerance by simp
      qed
    qed
    with h show "check binary32 fsum x = Inr True" by (simp add: c)
  }
qed

theorem check_iff_invariants_witness:
  "check binary32 (sum_seq binary32) [[1, 0], [2652711 / 8388608, 1]] = Inr False
   \<and> check binary32 (sum_seq binary32) [[1, 0], [3 / 8192, 1]] = Inr True"
proof
  have ex: "\<exists>i<2. sum_seq binary32
        (map binary32 (pow2 ([[1, 0], [2652711 / 8388608, 1]] ! i))) = binary32 (11 / 10)"
    by (simp add: ex_less_2 row_A binary32_11_10)
  show "check binary32 (sum_seq binary32) [[1, 0], [2652711 / 8388608, 1]] = Inr False"
    by (rule check_iff_invariants[OF _ square_2, THEN conjunct2, THEN conjunct1, THEN mp,
          OF _ ex]) simp
next
  have h: "tril 0 [[1, 0], [3 / 8192, 1]] = [[1, 0], [3 / 8192, 1 :: real]]
      \<and> (\<forall>i<2. 0 < [[1, 0], [3 / 8192, 1 :: real]] ! i ! i)
      \<and> (\<forall>i<2. sum_seq binary32 (map binary32 (pow2 ([[1, 0], [3 / 8192, 1]] ! i))) = 1
            \<or> sum_seq binary32 (map binary32 (pow2 ([[1, 0], [3 / 8192, 1]] ! i)))
                = binary32 (10000001 / 10000000))"
    by (simp add: tril_2 less_2_cases_all row_unit row_B binary32_1_0000001)
  show "check binary32 (sum_seq binary32) [[1, 0], [3 / 8192, 1]] = Inr True"
    by (rule check_iff_invariants[OF _ square_2, THEN conjunct2, THEN conjunct2, THEN mp,
          OF _ h]) simp
qed

text \<open>
  Claim C9, as stated: in single precision the validator accepts the matrix with rows
  \<open>[1, 0]\<close> and \<open>[1, t]\<close>, where \<open>t\<close> is the number of the format nearest to
  0.001, although the sum of squares of the second row differs from 1 by more than
  \<open>1e-6\<close>: the computed sum is \<open>1 + 2 ^ -20\<close>.
\<close>

theorem check_accepts_beyond_tolerance:
  "check binary32 (sum_seq binary32) [[1, 0], [1, 8589935 / 8589934592]] = Inr True
   \<and> \<not> \<bar>(\<Sum>j<2. ([[1, 0], [1, 8589935 / 8589934592 :: real]] ! 1 ! j)\<^sup>2) - 1\<bar>
         < 1 / 10 ^ 6"
proof -
  have "check binary32 (sum_seq binary32) [[1, 0], [1, 8589935 / 8589934592]]
      = Inr (tril 0 [[1, 0], [1, 8589935 / 8589934592]] = [[1, 0], [1, 8589935 / 8589934592]]
          \<and> (\<forall>i<2. 0 < [[1, 0], [1, 8589935 / 8589934592 :: real]] ! i ! i)
          \<and> (\<forall>i<2. \<bar>binary32 (sum_seq binary32
                  (map binary32 (pow2 ([[1, 0], [1, 8589935 / 8589934592]] ! i))) - 1)\<bar>
                < binary32 (1 / 10 ^ 6)))"
    by (rule check_square[OF _ square_2]) simp
  then have "check binary32 (sum_seq binary32) [[1, 0], [1, 8589935 / 8589934592]] = Inr True"
    by (simp add: tril_2 less_2_cases_all row_unit row_C binary32_0 binary32_C3
        binary32_tolerance_numeral)
  then show ?thesis
    by (simp add: numeral_2_eq_2 power2_eq_square)
qed

section \<open>Properties of the normalizing constant\<close>







text \<open>
  Claim C10. Once a call of \<^verbatim>\<open>lkj_constant\<close> has returned a value, every later call
  on the instance returns that same value and leaves the instance as it is, whatever
  \<open>eta\<close> and \<open>K\<close> it is given.
\<close>

theorem lkj_constant_memoized:
  assumes "lkj_constant lgamma self eta K = Inr (c, self')"
  shows "lkj_constant lgamma' self' eta' K' = Inr (c, self')"
proof (cases "self_lkj_constant self")
  case (Some c0)
  with assms show ?thesis by (auto simp: lkj_constant_def)
next
  case None
  with assms have "self_lkj_constant self' = Some c"
    by (auto simp: lkj_constant_def Let_def bind_err_def split: sum.splits)
  then show ?thesis by (simp add: lkj_constant_def)
qed


theorem lkj_constant_memoized_witness:
  "lkj_constant (\<lambda>t. t) \<lparr>self_concentrations = [1], self_eta = 1, self_d = 2,
        self_lkj_constant = None\<rparr> 1 2
     = Inr (1 / 2 - ln pi / 2, \<lparr>self_concentrations = [1], self_eta = 1, self_d = 2,
        self_lkj_constant = Some (1 / 2 - ln pi / 2)\<rparr>)
   \<and> lkj_constant (\<lambda>t. 0) \<lparr>self_concentrations = [1], self_eta = 1, self_d = 2,
        self_lkj_constant = Some (1 / 2 - ln pi / 2)\<rparr> 7 5
     = Inr (1 / 2 - ln pi / 2, \<lparr>self_concentrations = [1], self_eta = 1, self_d = 2,
        self_lkj_constant = Some (1 / 2 - ln pi / 2)\<rparr>)"
proof -
  have first: "lkj_constant (\<lambda>t. t) \<lparr>self_concentrations = [1], self_eta = 1, self_d = 2,
        self_lkj_constant = None\<rparr> 1 2
     = Inr (1 / 2 - ln pi / 2, \<lparr>self_concentrations = [1], self_eta = 1, self_d = 2,
        self_lkj_constant = Some (1 / 2 - ln pi / 2)\<rparr>)"
    by (simp add: lkj_constant_def linspace_def broadcast2_def bind_err_def Let_def)
  from first lkj_constant_memoized[OF first, of "\<lambda>t. 0" 7 5] show ?thesis by (rule conjI)
qed

section \<open>Properties of the constructor and of the density\<close>

lemma init_guard: "eta \<le> 0 \<Longrightarrow> init Beta d eta = Inl (NameError ''ValueException'')"
  by (simp add: init_def resolve_def module_globals_def builtins_def bind_err_def)

text \<open>
  Claim C8. Construction with a concentration \<open>eta \<le> 0\<close> is meant to fail with a
  parameter error. The guard names an exception that is bound nowhere, so what the
  caller gets is the \<^verbatim>\<open>NameError\<close> of that name: here for \<open>d = 2\<close>,
  \<open>eta = 0\<close>.
\<close>

theorem init_eta_zero_NameError: "init Beta 2 0 = Inl (NameError ''ValueException'')"
  by (rule init_guard) simp

text \<open>
  Claim C5. The density is meant to be the normalizing constant plus a weighted sum of
  the logarithms of the diagonal. \<^verbatim>\<open>log_prob\<close> raises \<^verbatim>\<open>NameError\<close> on every
  instance and every matrix: its first statement reads the unbound name
  \<^verbatim>\<open>lkj_constant\<close>.
\<close>

theorem log_prob_NameError: "log_prob lgamma self x = Inl (NameError ''lkj_constant'')"
  by (simp add: log_prob_def resolve_def module_globals_def builtins_def bind_err_def)

lemma expand_new: "expand [] n = (if n = 0 then Inr [] else Inl RuntimeError)"
  by (auto simp: expand_def)

lemma init_raises:
  assumes "0 < eta" "2 \<le> d"
  shows "init Beta d eta = Inl RuntimeError"
proof -
  have "2 * 1 \<le> d * (d - 1)"
    using assms(2) by (intro mult_le_mono) simp_all
  then have "d * (d - 1) div 2 \<noteq> 0" by simp
  then show ?thesis
    using assms(1) by (simp add: init_def Let_def expand_new bind_err_def)
qed

lemma init_loops_3:
  "for_loop (init_outer 3) [0..<3 - 1] (1 + (1 / 2) * (real 3 - 1), [u0, u1, u2], 0)
     = Inr (1, [3 / 2, 3 / 2, 1], 3)"
  by (simp add: init_outer_def init_inner_def assign_index_def bind_err_def upt_rec Let_def)

text \<open>
  Claim C6. The concentration vector for \<open>d = 3\<close>, \<open>eta = 1\<close> is meant to be
  computed by the recursion of the constructor. The constructor allocates the vector by
  \<^verbatim>\<open>eta.new().expand(vector_size)\<close>, the expansion of a tensor with no entry to 3
  entries, which raises: no vector is computed (for every \<open>d \<ge> 2\<close>, lemma
  \<open>init_raises\<close>). Run on a vector of 3 entries, the loops would write
  \<open>[1.5, 1.5, 1.0]\<close> (lemma \<open>init_loops_3\<close>).
\<close>

theorem init_3_1_raises: "init Beta 3 1 = Inl RuntimeError"
  by (rule init_raises) simp_all

section \<open>Properties of \<^verbatim>\<open>_TanhTransform\<close>\<close>

lemma one_minus_tanh_sq: "1 - (tanh (x::real))\<^sup>2 = 1 / (cosh x)\<^sup>2"
proof -
  have "1 - (sinh x / cosh x)\<^sup>2 = ((cosh x)\<^sup>2 - (sinh x)\<^sup>2) / (cosh x)\<^sup>2"
    by (simp add: power_divide diff_divide_distrib)
  also have "\<dots> = 1 / (cosh x)\<^sup>2"
    by (simp only: hyperbolic_pythagoras)
  finally show ?thesis by (simp add: tanh_def)
qed

lemma ln_deriv_tanh: "ln (1 - (tanh (x::real))\<^sup>2) = - 2 * ln (cosh x)"
  by (simp add: one_minus_tanh_sq ln_div ln_realpow)

lemma DERIV_TanhTransform_call:
  "DERIV (\<lambda>t. TanhTransform_call [t] ! 0) x :> 1 - (tanh x)\<^sup>2"
proof -
  have "DERIV tanh x :> 1 - (tanh x)\<^sup>2"
    by (auto intro!: derivative_eq_intros)
  then show ?thesis by (simp add: TanhTransform_call_def)
qed

lemma jacobian_at_one_differs: "- 2 * ln (cosh (tanh 1)) \<noteq> ln (1 - (tanh (1::real))\<^sup>2)"
proof -
  have lt: "tanh (1::real) < 1" by (rule tanh_real_lt_1)
  have "0 \<le> tanh (1::real)" by simp
  with lt have "cosh (tanh (1::real)) < cosh 1"
    by (simp add: cosh_real_nonneg_less_iff)
  then have "ln (cosh (tanh (1::real))) < ln (cosh 1)"
    by (subst ln_less_cancel_iff) simp_all
  then have "- 2 * ln (cosh (tanh (1::real))) \<noteq> - 2 * ln (cosh 1)"
    by linarith
  then show ?thesis unfolding ln_deriv_tanh .
qed

text \<open>
  Claim C7. The logarithm of the derivative of the forward map \<open>tanh\<close> at \<open>x\<close> is
  \<open>ln (1 - (tanh x)\<^sup>2) = - 2 * ln (cosh x)\<close>. \<^verbatim>\<open>log_abs_det_jacobian(x, y)\<close>
  takes the \<open>cosh\<close> of the output \<open>y = tanh x\<close>, not of \<open>x\<close>: at \<open>x = 1\<close> the
  forward map has derivative \<open>1 - (tanh 1)\<^sup>2\<close>, the method returns
  \<open>- 2 * ln (cosh (tanh 1))\<close>, and the two differ.
\<close>

theorem TanhTransform_jacobian_at_one:
  "DERIV (\<lambda>t. TanhTransform_call [t] ! 0) 1 :> 1 - (tanh 1)\<^sup>2
   \<and> TanhTransform_log_abs_det_jacobian [1] (TanhTransform_call [1])
       = [- 2 * ln (cosh (tanh 1))]
   \<and> - 2 * ln (cosh (tanh 1)) \<noteq> ln (1 - (tanh (1::real))\<^sup>2)"
  using DERIV_TanhTransform_call[of 1] jacobian_at_one_differs
  by (simp add: TanhTransform_log_abs_det_jacobian_def TanhTransform_call_def)

lemma TanhTransform_jacobian_not_log_derivative:
  "\<not> (\<forall>x D. DERIV (\<lambda>t. TanhTransform_call [t] ! 0) x :> D \<longrightarrow>
         TanhTransform_log_abs_det_jacobian [x] (TanhTransform_call [x]) = [ln D])"
proof
  assume h: "\<forall>x D. DERIV (\<lambda>t. TanhTransform_call [t] ! 0) x :> D \<longrightarrow>
         TanhTransform_log_abs_det_jacobian [x] (TanhTransform_call [x]) = [ln D]"
  have "TanhTransform_log_abs_det_jacobian [1] (TanhTransform_call [1]) = [ln (1 - (tanh 1)\<^sup>2)]"
    using h DERIV_TanhTransform_call[of 1] by blast
  then show False
    using jacobian_at_one_differs
    by (simp add: TanhTransform_log_abs_det_jacobian_def TanhTransform_call_def)
qed

section \<open>Properties of the forward map \<^verbatim>\<open>_call\<close>\<close>

text \<open>
  In exact arithmetic the forward map returns a valid factor for every input in the
  open interval: the development below proves it by the invariant \<open>call_inv\<close>. In
  single precision it does not: the running sum of squares of a row can round to 1, and
  the diagonal entry is then 0.
\<close>

subsection \<open>Assignments and sums of squares\<close>

lemma shape_square: "square D x \<Longrightarrow> 0 < D \<Longrightarrow> shape0 x = D \<and> shape1 x = D"
  by (cases x) (auto simp: square_def shape0_def shape1_def)

lemma assign_entry_square:
  assumes "square D x" "r < D" "c < D"
  shows "\<exists>x'. assign_entry x r c t = Inr x' \<and> square D x'
           \<and> (\<forall>a<D. \<forall>b<D. x' ! a ! b = (if a = r \<and> b = c then t else x ! a ! b))"
proof -
  have sh: "shape0 x = D" "shape1 x = D" using shape_square[OF assms(1)] assms(2) by auto
  have len: "length x = D" "\<And>a. a < D \<Longrightarrow> length (x ! a) = D"
    using assms(1) by (auto simp: square_def list_all_length)
  let ?x' = "x[r := (x ! r)[c := t]]"
  have "assign_entry x r c t = Inr ?x'" using sh assms by (simp add: assign_entry_def)
  moreover have "square D ?x'"
    using len assms(2) by (auto simp: square_def list_all_length nth_list_update)
  moreover have "\<forall>a<D. \<forall>b<D. ?x' ! a ! b = (if a = r \<and> b = c then t else x ! a ! b)"
    using len assms(2) by (auto simp: nth_list_update)
  ultimately show ?thesis by blast
qed

lemma assign_col_from_square:
  assumes "square D x" "c < D" "length v = D - r"
  shows "\<exists>x'. assign_col_from x r c v = Inr x' \<and> square D x'
           \<and> (\<forall>a<D. \<forall>b<D. x' ! a ! b = (if r \<le> a \<and> b = c then v ! (a - r) else x ! a ! b))"
proof -
  have sh: "shape1 x = D" using shape_square[OF assms(1)] assms(2) by auto
  have len: "length x = D" "\<And>a. a < D \<Longrightarrow> length (x ! a) = D"
    using assms(1) by (auto simp: square_def list_all_length)
  let ?x' = "map (\<lambda>k. if r \<le> k then (x ! k)[c := v ! (k - r)] else x ! k) [0..<length x]"
  have "assign_col_from x r c v = Inr ?x'"
    using sh assms len by (simp add: assign_col_from_def)
  moreover have "square D ?x'"
    using len by (auto simp: square_def list_all_length)
  moreover have "\<forall>a<D. \<forall>b<D. ?x' ! a ! b = (if r \<le> a \<and> b = c then v ! (a - r) else x ! a ! b)"
    using len by (auto simp: nth_list_update)
  ultimately show ?thesis by blast
qed

lemma zeros_square: "square D (zeros D D)"
  by (simp add: square_def zeros_def list_all_length)

lemma zeros_nth: "a < D \<Longrightarrow> b < D \<Longrightarrow> zeros D D ! a ! b = 0"
  by (simp add: zeros_def)

lemma rowsq_cong:
  "(\<And>c. c < D \<Longrightarrow> x ! r ! c = y ! r ! c) \<Longrightarrow> rowsq D x r = rowsq D y r"
  by (simp add: rowsq_def)

lemma rowsq_update:
  assumes "j < D" "x ! r ! j = 0"
    and "\<And>c. c < D \<Longrightarrow> y ! r ! c = (if c = j then t else x ! r ! c)"
  shows "rowsq D y r = rowsq D x r + t\<^sup>2"
proof -
  have "rowsq D y r = (\<Sum>c<D. (if c = j then t\<^sup>2 else (x ! r ! c)\<^sup>2))"
    unfolding rowsq_def by (rule sum.cong) (simp_all add: assms(3))
  also have "\<dots> = (\<Sum>c<D. (if c = j then t\<^sup>2 else 0) + (x ! r ! c)\<^sup>2)"
    by (rule sum.cong) (simp_all add: assms(2))
  also have "\<dots> = t\<^sup>2 + rowsq D x r"
    using assms(1) by (simp add: sum.distrib rowsq_def)
  finally show ?thesis by simp
qed

lemma offset_step: "j < D \<Longrightarrow> (\<Sum>c<j. (D::nat) - 1 - c) + (D - 1 - j) = (\<Sum>c<Suc j. D - 1 - c)"
  by simp

lemma offset_total: "(\<Sum>c<D. (D::nat) - 1 - c) = D * (D - 1) div 2"
proof -
  have "(\<Sum>c<D. D - 1 - c) = (\<Sum>c<D. D - Suc c)"
    by simp
  also have "\<dots> = (\<Sum>c<D. c)"
    by (rule sum.nat_diff_reindex)
  finally have e: "(\<Sum>c<D. D - 1 - c) = (\<Sum>c<D. c)" .
  have "2 * (\<Sum>c<D. c) = D * (D - 1)"
  proof (induction D)
    case 0
    show ?case by simp
  next
    case (Suc n)
    then show ?case by (cases n) (simp_all add: algebra_simps)
  qed
  then have "(\<Sum>c<D. c) = D * (D - 1) div 2" by linarith
  with e show ?thesis by simp
qed

lemma offset_mono: "j \<le> D \<Longrightarrow> (\<Sum>c<j. (D::nat) - 1 - c) \<le> D * (D - 1) div 2"
proof -
  assume jD: "j \<le> D"
  have "(\<Sum>c<j. D - 1 - c) \<le> (\<Sum>c<D. D - 1 - c)"
    by (rule sum_mono2) (use jD in auto)
  then show ?thesis by (simp only: offset_total)
qed

subsection \<open>The body of the loop keeps the invariant\<close>

lemma slice_length: "a + d \<le> length v \<Longrightarrow> length (slice v a (a + d)) = d"
  by (simp add: slice_def)

lemma slice_set: "set (slice v a b) \<subseteq> set v"
  unfolding slice_def using set_drop_subset set_take_subset by fast

lemma sq_lt_one: "- 1 < (t::real) \<Longrightarrow> t < 1 \<Longrightarrow> t\<^sup>2 < 1"
  by (simp add: abs_square_less_1 abs_less_iff)

lemma rowsq_nonneg: "0 \<le> rowsq D x r"
  by (simp add: rowsq_def sum_nonneg)

lemma scaled_square_less:
  assumes "t\<^sup>2 < 1" "S < (1::real)"
  shows "S + (t * sqrt (1 - S))\<^sup>2 < 1"
proof -
  have "(t * sqrt (1 - S))\<^sup>2 = t\<^sup>2 * (1 - S)"
    using assms(2) by (simp add: power_mult_distrib)
  moreover have "t\<^sup>2 * (1 - S) < 1 * (1 - S)"
    using assms by (intro mult_strict_right_mono) simp_all
  ultimately show ?thesis by simp
qed

lemma call_body_exact:
  "call_body (\<lambda>t. t) D z j s =
     (let distance_to_copy = D - 1 - j;
          new_z = slice z (call_i s) (call_i s + distance_to_copy) in
      bind_err (case call_last_squared_x s of
                  None \<Rightarrow> Inr (pow2 (call_current_x s))
                | Some l \<Rightarrow> broadcast2 (+) (drop 1 l) (pow2 (call_current_x s)))
        (\<lambda>last_squared_x.
      bind_err (index last_squared_x 0) (\<lambda>l0.
      bind_err (assign_entry (call_x s) j j (sqrt (1 - l0))) (\<lambda>x1.
      bind_err (broadcast2 (*) new_z (map (\<lambda>t. sqrt (1 - t)) (drop 1 last_squared_x)))
        (\<lambda>current_x.
      bind_err (assign_col_from x1 (j + 1) j current_x) (\<lambda>x2.
      Inr \<lparr>call_x = x2, call_i = call_i s + distance_to_copy,
           call_last_squared_x = Some last_squared_x, call_current_x = current_x\<rparr>))))))"
  by (cases "call_last_squared_x s") (simp_all add: call_body_def)

lemma call_body_inv:
  assumes inv: "call_inv D j s" and j: "1 \<le> j" "j < D"
    and len: "length z = D * (D - 1) div 2"
    and bnd: "\<forall>t\<in>set z. - 1 < t \<and> t < 1"
  shows "\<exists>s'. call_body (\<lambda>t. t) D z j s = Inr s' \<and> call_inv D (Suc j) s'"
proof -
  define X where "X = call_x s"
  define cur where "cur = call_current_x s"
  define new_z where "new_z = slice z (call_i s) (call_i s + (D - 1 - j))"
  define lsq where "lsq = (case call_last_squared_x s of
      None \<Rightarrow> pow2 cur | Some l \<Rightarrow> map2 (+) (drop 1 l) (pow2 cur))"
  define cur' where "cur' = map2 (*) new_z (map (\<lambda>t. sqrt (1 - t)) (drop 1 lsq))"
  from inv have sq: "square D X"
    and ci: "call_i s = (\<Sum>c<j. D - 1 - c)"
    and lc: "length cur = D - j"
    and cs: "case call_last_squared_x s of None \<Rightarrow> j = 1 | Some l \<Rightarrow> length l = D - j + 1"
    and aux: "\<And>k. k < D - j \<Longrightarrow>
           (case call_last_squared_x s of None \<Rightarrow> 0 | Some l \<Rightarrow> l ! (k + 1)) + (cur ! k)\<^sup>2
             = rowsq D X (j + k)"
    and low: "\<And>r. r < j \<Longrightarrow> rowsq D X r = 1 \<and> 0 < X ! r ! r
               \<and> (\<forall>c<D. r < c \<longrightarrow> X ! r ! c = 0)"
    and high: "\<And>r. r < D \<Longrightarrow> j \<le> r \<Longrightarrow> rowsq D X r < 1
               \<and> (\<forall>c<D. j \<le> c \<longrightarrow> X ! r ! c = 0)"
    by (simp_all add: call_inv_def X_def cur_def)
  \<comment> \<open>the next entries of \<open>z\<close>\<close>
  have "call_i s + (D - 1 - j) = (\<Sum>c<Suc j. D - 1 - c)"
    using ci by simp
  also have "\<dots> \<le> length z"
    using offset_mono[of "Suc j" D] j len by simp
  finally have room: "call_i s + (D - 1 - j) \<le> length z" .
  have lnz: "length new_z = D - 1 - j"
    unfolding new_z_def by (rule slice_length[OF room])
  have bnz: "\<And>k. k < D - 1 - j \<Longrightarrow> (new_z ! k)\<^sup>2 < 1"
  proof -
    fix k assume "k < D - 1 - j"
    then have "new_z ! k \<in> set new_z"
      using lnz by (intro nth_mem) simp
    then have "new_z ! k \<in> set z"
      using slice_set[of z] unfolding new_z_def by blast
    then show "(new_z ! k)\<^sup>2 < 1" using bnd sq_lt_one by blast
  qed
  \<comment> \<open>the new \<open>last_squared_x\<close>\<close>
  have e1: "(case call_last_squared_x s of
               None \<Rightarrow> Inr (pow2 cur)
             | Some l \<Rightarrow> broadcast2 (+) (drop 1 l) (pow2 cur)) = Inr lsq"
    using cs lc by (auto simp: lsq_def broadcast2_def pow2_def split: option.splits)
  have llsq: "length lsq = D - j"
    using cs lc by (auto simp: lsq_def pow2_def split: option.splits)
  have nlsq: "lsq ! k = rowsq D X (j + k)" if "k < D - j" for k
    using aux[OF that] cs lc that
    by (auto simp: lsq_def pow2_def add.commute split: option.splits)
  have e2: "index lsq 0 = Inr (lsq ! 0)"
    using llsq j by (simp add: index_def)
  have l0: "lsq ! 0 = rowsq D X j" using nlsq[of 0] j by simp
  have l0lt: "lsq ! 0 < 1" using l0 high[of j] j by simp
  \<comment> \<open>the diagonal entry\<close>
  obtain x1 where e3: "assign_entry X j j (sqrt (1 - lsq ! 0)) = Inr x1"
    and sq1: "square D x1"
    and n1: "\<And>a b. a < D \<Longrightarrow> b < D \<Longrightarrow>
          x1 ! a ! b = (if a = j \<and> b = j then sqrt (1 - lsq ! 0) else X ! a ! b)"
    using assign_entry_square[OF sq j(2) j(2), of "sqrt (1 - lsq ! 0)"] by blast
  \<comment> \<open>the entries below it\<close>
  have lcur': "length cur' = D - (j + 1)"
    using lnz llsq by (simp add: cur'_def)
  have e4: "broadcast2 (*) new_z (map (\<lambda>t. sqrt (1 - t)) (drop 1 lsq)) = Inr cur'"
    using lnz llsq by (simp add: broadcast2_def cur'_def)
  have ncur': "cur' ! k = new_z ! k * sqrt (1 - rowsq D X (Suc j + k))" if "k < D - 1 - j" for k
    using that lnz llsq nlsq[of "Suc k"] by (simp add: cur'_def)
  obtain x2 where e5: "assign_col_from x1 (j + 1) j cur' = Inr x2"
    and sq2: "square D x2"
    and n2: "\<And>a b. a < D \<Longrightarrow> b < D \<Longrightarrow>
          x2 ! a ! b = (if j + 1 \<le> a \<and> b = j then cur' ! (a - (j + 1)) else x1 ! a ! b)"
    using assign_col_from_square[OF sq1 j(2) lcur'] by blast
  define s' where "s' = \<lparr>call_x = x2, call_i = call_i s + (D - 1 - j),
           call_last_squared_x = Some lsq, call_current_x = cur'\<rparr>"
  have run: "call_body (\<lambda>t. t) D z j s = Inr s'"
    unfolding call_body_exact Let_def X_def[symmetric] cur_def[symmetric] new_z_def[symmetric]
    by (simp only: e1 e2 e3 e4 e5 bind_err_def sum.case s'_def)
  \<comment> \<open>rows above \<open>j\<close> are untouched\<close>
  have same: "x2 ! r ! c = X ! r ! c" if "r < j" "c < D" for r c
    using that j n1[of r c] n2[of r c] by simp
  \<comment> \<open>row \<open>j\<close> is completed\<close>
  have rowj: "x2 ! j ! c = (if c = j then sqrt (1 - lsq ! 0) else X ! j ! c)" if "c < D" for c
    using that j n1[of j c] n2[of j c] by simp
  have rj: "rowsq D x2 j = 1"
  proof -
    have "rowsq D x2 j = rowsq D X j + (sqrt (1 - lsq ! 0))\<^sup>2"
      by (rule rowsq_update[OF j(2)]) (use high[of j] j rowj in auto)
    then show ?thesis using l0 l0lt by simp
  qed
  \<comment> \<open>rows below \<open>j\<close> get one entry more\<close>
  have rowb: "x2 ! r ! c = (if c = j then cur' ! (r - Suc j) else X ! r ! c)"
    if "Suc j \<le> r" "r < D" "c < D" for r c
    using that n1[of r c] n2[of r c] by simp
  have rb: "rowsq D x2 r = rowsq D X r + (cur' ! (r - Suc j))\<^sup>2" if "Suc j \<le> r" "r < D" for r
    by (rule rowsq_update[OF j(2)]) (use high[of r] that rowb in auto)
  have goal: "call_inv D (Suc j) s'"
    unfolding call_inv_def
  proof (intro conjI allI impI)
    show "square D (call_x s')" by (simp add: s'_def sq2)
    show "call_i s' = (\<Sum>c<Suc j. D - 1 - c)" by (simp add: s'_def ci)
    show "length (call_current_x s') = D - Suc j" by (simp add: s'_def lcur')
    show "case call_last_squared_x s' of None \<Rightarrow> Suc j = 1 | Some l \<Rightarrow> length l = D - Suc j + 1"
      using j by (simp add: s'_def llsq)
  next
    fix k assume k: "k < D - Suc j"
    have "rowsq D x2 (Suc j + k) = rowsq D X (Suc j + k) + (cur' ! k)\<^sup>2"
      using rb[of "Suc j + k"] k by simp
    moreover have "lsq ! (k + 1) = rowsq D X (Suc j + k)"
      using nlsq[of "Suc k"] k by simp
    ultimately show "(case call_last_squared_x s' of None \<Rightarrow> 0 | Some l \<Rightarrow> l ! (k + 1))
             + (call_current_x s' ! k)\<^sup>2 = rowsq D (call_x s') (Suc j + k)"
      by (simp add: s'_def)
  next
    fix r assume r: "r < Suc j"
    show "rowsq D (call_x s') r = 1"
    proof (cases "r = j")
      case True then show ?thesis by (simp add: s'_def rj)
    next
      case False
      with r have rl: "r < j" by simp
      have "rowsq D x2 r = rowsq D X r" by (rule rowsq_cong) (simp add: same rl)
      then show ?thesis using low[OF rl] by (simp add: s'_def)
    qed
    show "0 < call_x s' ! r ! r"
    proof (cases "r = j")
      case True then show ?thesis using rowj[of j] j l0lt by (simp add: s'_def)
    next
      case False
      with r have rl: "r < j" by simp
      then show ?thesis using low[OF rl] same[of r r] j by (simp add: s'_def)
    qed
  next
    fix r c assume r: "r < Suc j" and c: "c < D" "r < c"
    show "call_x s' ! r ! c = 0"
    proof (cases "r = j")
      case True then show ?thesis using rowj[of c] c high[of j] j by (simp add: s'_def)
    next
      case False
      with r have rl: "r < j" by simp
      then show ?thesis using low[OF rl] same[of r c] c by (simp add: s'_def)
    qed
  next
    fix r assume r: "r < D" "Suc j \<le> r"
    define k where "k = r - Suc j"
    have k: "k < D - 1 - j" "r = Suc j + k" using r by (simp_all add: k_def)
    have "rowsq D x2 r = rowsq D X r + (new_z ! k * sqrt (1 - rowsq D X r))\<^sup>2"
      using rb[of r] r ncur'[OF k(1)] k by simp
    moreover have "rowsq D X r < 1" using high[of r] r by simp
    ultimately show "rowsq D (call_x s') r < 1"
      using scaled_square_less[OF bnz[OF k(1)]] by (simp add: s'_def)
  next
    fix r c assume r: "r < D" "Suc j \<le> r" and c: "c < D" "Suc j \<le> c"
    show "call_x s' ! r ! c = 0"
      using rowb[of r c] r c high[of r] by (simp add: s'_def)
  qed
  from run goal show ?thesis by blast
qed

subsection \<open>The loop, the first column and the result in exact arithmetic\<close>

lemma order_of_length:
  assumes "1 \<le> D" "length z = D * (D - 1) div 2"
  shows "(1 + sqrt (1 + 8 * real (length z))) / 2 = real D"
proof -
  have "even (D * (D - 1))" by (cases "even D") simp_all
  then have "2 * (D * (D - 1) div 2) = D * (D - 1)" by simp
  then have "2 * length z = D * (D - 1)" using assms(2) by simp
  then have "2 * real (length z) = real (D * (D - 1))" by (metis of_nat_mult of_nat_numeral)
  then have "2 * real (length z) = real D * (real D - 1)"
    using assms(1) by (simp add: of_nat_diff)
  then have "1 + 8 * real (length z) = (2 * real D - 1)\<^sup>2"
    by (simp add: power2_eq_square algebra_simps)
  moreover have "0 \<le> 2 * real D - 1" using assms(1) by simp
  ultimately have "sqrt (1 + 8 * real (length z)) = 2 * real D - 1"
    by simp
  then show ?thesis by simp
qed

lemma call_loop_inv:
  assumes len: "length z = D * (D - 1) div 2"
    and bnd: "\<forall>t\<in>set z. - 1 < t \<and> t < 1"
  shows "call_inv D j s \<Longrightarrow> 1 \<le> j \<Longrightarrow> j \<le> D \<Longrightarrow>
         \<exists>s'. for_loop (call_body (\<lambda>t. t) D z) [j..<D] s = Inr s' \<and> call_inv D D s'"
proof (induction "D - j" arbitrary: j s)
  case 0
  then have "j = D" by simp
  with 0 show ?case by simp
next
  case (Suc n)
  then have jD: "j < D" by simp
  obtain s1 where b: "call_body (\<lambda>t. t) D z j s = Inr s1" and i1: "call_inv D (Suc j) s1"
    using call_body_inv[OF Suc.prems(1) Suc.prems(2) jD len bnd] by blast
  have "n = D - Suc j" using Suc.hyps(2) by simp
  from Suc.hyps(1)[OF this i1] jD
  obtain s' where l: "for_loop (call_body (\<lambda>t. t) D z) [Suc j..<D] s1 = Inr s'" and i': "call_inv D D s'"
    by auto
  have "for_loop (call_body (\<lambda>t. t) D z) [j..<D] s = Inr s'"
    using jD b l by (simp add: upt_conv_Cons bind_err_def)
  with i' show ?case by blast
qed

lemma call_init_inv:
  assumes D: "1 \<le> D" and len: "length z = D * (D - 1) div 2"
    and bnd: "\<forall>t\<in>set z. - 1 < t \<and> t < 1"
  shows "\<exists>x0 x1. assign_entry (zeros D D) 0 0 1 = Inr x0
           \<and> assign_col_from x0 1 0 (slice z 0 (D - 1)) = Inr x1
           \<and> call_inv D 1 \<lparr>call_x = x1, call_i = D - 1, call_last_squared_x = None,
                            call_current_x = slice z 0 (D - 1)\<rparr>"
proof -
  have D0: "0 < D" using D by simp
  define cur where "cur = slice z 0 (D - 1)"
  have "(\<Sum>c<Suc 0. D - 1 - c) \<le> length z"
    using offset_mono[of "Suc 0" D] D len by simp
  then have room: "0 + (D - 1) \<le> length z" by simp
  have lcur: "length cur = D - 1"
    using slice_length[OF room] by (simp add: cur_def)
  have bcur: "(cur ! k)\<^sup>2 < 1" if "k < D - 1" for k
  proof -
    have "cur ! k \<in> set cur" using that lcur by (intro nth_mem) simp
    then have "cur ! k \<in> set z" using slice_set[of z] unfolding cur_def by blast
    then show ?thesis using bnd sq_lt_one by blast
  qed
  obtain x0 where e0: "assign_entry (zeros D D) 0 0 1 = Inr x0"
    and sq0: "square D x0"
    and n0: "\<And>a b. a < D \<Longrightarrow> b < D \<Longrightarrow>
          x0 ! a ! b = (if a = 0 \<and> b = 0 then 1 else zeros D D ! a ! b)"
    using assign_entry_square[OF zeros_square D0 D0, of 1] by blast
  obtain x1 where e1: "assign_col_from x0 1 0 cur = Inr x1"
    and sq1: "square D x1"
    and n1: "\<And>a b. a < D \<Longrightarrow> b < D \<Longrightarrow>
          x1 ! a ! b = (if 1 \<le> a \<and> b = 0 then cur ! (a - 1) else x0 ! a ! b)"
    using assign_col_from_square[OF sq0 D0 lcur] by blast
  have ent: "x1 ! a ! b = (if b = 0 then (if a = 0 then 1 else cur ! (a - 1)) else 0)"
    if "a < D" "b < D" for a b
    using that n1[of a b] n0[of a b] by (auto simp: zeros_nth)
  have rs: "rowsq D x1 a = (if a = 0 then 1 else (cur ! (a - 1))\<^sup>2)" if "a < D" for a
  proof -
    have "rowsq D x1 a = (\<Sum>c<D. if c = 0 then (if a = 0 then 1 else (cur ! (a - 1))\<^sup>2) else 0)"
      unfolding rowsq_def by (rule sum.cong) (simp_all add: ent that)
    also have "\<dots> = (if a = 0 then 1 else (cur ! (a - 1))\<^sup>2)"
      using D0 by (subst sum.delta) auto
    finally show ?thesis .
  qed
  have "call_inv D 1 \<lparr>call_x = x1, call_i = D - 1, call_last_squared_x = None,
                      call_current_x = cur\<rparr>"
    unfolding call_inv_def
  proof (intro conjI allI impI)
    fix k assume "k < D - 1"
    then show "(case call_last_squared_x \<lparr>call_x = x1, call_i = D - 1,
                 call_last_squared_x = None, call_current_x = cur\<rparr> of
               None \<Rightarrow> 0 | Some l \<Rightarrow> l ! (k + 1))
             + (call_current_x \<lparr>call_x = x1, call_i = D - 1,
                 call_last_squared_x = None, call_current_x = cur\<rparr> ! k)\<^sup>2
             = rowsq D (call_x \<lparr>call_x = x1, call_i = D - 1,
                 call_last_squared_x = None, call_current_x = cur\<rparr>) (1 + k)"
      using rs[of "1 + k"] by simp
  next
    fix r :: nat assume "r < 1"
    then have r: "r = 0" by simp
    show "rowsq D (call_x \<lparr>call_x = x1, call_i = D - 1,
                 call_last_squared_x = None, call_current_x = cur\<rparr>) r = 1"
      using rs[of 0] D0 r by simp
    show "0 < call_x \<lparr>call_x = x1, call_i = D - 1,
                 call_last_squared_x = None, call_current_x = cur\<rparr> ! r ! r"
      using ent[of 0 0] D0 r by simp
  next
    fix r c :: nat assume "r < 1" "c < D" "r < c"
    then show "call_x \<lparr>call_x = x1, call_i = D - 1,
                 call_last_squared_x = None, call_current_x = cur\<rparr> ! r ! c = 0"
      using ent[of 0 c] D0 by simp
  next
    fix r assume r: "r < D" "1 \<le> r"
    then show "rowsq D (call_x \<lparr>call_x = x1, call_i = D - 1,
                 call_last_squared_x = None, call_current_x = cur\<rparr>) r < 1"
      using rs[of r] bcur[of "r - 1"] by simp
  next
    fix r c assume "r < D" "1 \<le> r" "c < D" "1 \<le> c"
    then show "call_x \<lparr>call_x = x1, call_i = D - 1,
                 call_last_squared_x = None, call_current_x = cur\<rparr> ! r ! c = 0"
      using ent[of r c] by simp
  qed (simp_all add: sq1 lcur)
  with e0 e1 show ?thesis unfolding cur_def by blast
qed

lemma call_valid:
  assumes D: "1 \<le> D" and len: "length z = D * (D - 1) div 2"
    and bnd: "\<forall>t\<in>set z. - 1 < t \<and> t < 1"
  shows "\<exists>x. PartialCorrToCorrCholeskyTransform_call (\<lambda>t. t) z = Inr x \<and> square D x
           \<and> (\<forall>r<D. rowsq D x r = 1 \<and> 0 < x ! r ! r \<and> (\<forall>c<D. r < c \<longrightarrow> x ! r ! c = 0))"
proof -
  have Dr: "(1 + sqrt (1 + 8 * real (length z))) / 2 = real D"
    by (rule order_of_length[OF D len])
  obtain x0 x1 where e0: "assign_entry (zeros D D) 0 0 1 = Inr x0"
    and e1: "assign_col_from x0 1 0 (slice z 0 (D - 1)) = Inr x1"
    and i1: "call_inv D 1 \<lparr>call_x = x1, call_i = D - 1, call_last_squared_x = None,
                            call_current_x = slice z 0 (D - 1)\<rparr>"
    using call_init_inv[OF D len bnd] by blast
  obtain s' where l: "for_loop (call_body (\<lambda>t. t) D z) [1..<D]
        \<lparr>call_x = x1, call_i = D - 1, call_last_squared_x = None,
         call_current_x = slice z 0 (D - 1)\<rparr> = Inr s'"
    and i': "call_inv D D s'"
    using call_loop_inv[OF len bnd i1 _ D] by auto
  have run: "PartialCorrToCorrCholeskyTransform_call (\<lambda>t. t) z = Inr (call_x s')"
  proof -
    have f: "frac (real D) = 0" using frac_of_int[of "int D"] by simp
    have n: "nat \<lfloor>real D\<rfloor> = D" by simp
    show ?thesis
      unfolding PartialCorrToCorrCholeskyTransform_call_def Let_def Dr f n
      by (simp only: e0 e1 l bind_err_def sum.case simp_thms if_False)
  qed
  from i' have "square D (call_x s')"
    and "\<forall>r<D. rowsq D (call_x s') r = 1 \<and> 0 < call_x s' ! r ! r
             \<and> (\<forall>c<D. r < c \<longrightarrow> call_x s' ! r ! c = 0)"
    by (simp_all add: call_inv_def)
  with run show ?thesis by blast
qed

lemma sum_list_pow2: "sum_list (pow2 r) = (\<Sum>j<length r. (r ! j)\<^sup>2)"
  by (simp add: pow2_def sum_list_sum_nth atLeast0LessThan)

lemma call_valid_exact:
  assumes "1 \<le> D" and "length z = D * (D - 1) div 2"
    and "\<forall>t\<in>set z. - 1 < t \<and> t < 1"
  shows "\<exists>x. PartialCorrToCorrCholeskyTransform_call (\<lambda>t. t) z = Inr x \<and> square D x
           \<and> (\<forall>i<D. \<forall>j<D. i < j \<longrightarrow> x ! i ! j = 0)
           \<and> (\<forall>i<D. 0 < x ! i ! i)
           \<and> (\<forall>i<D. (\<Sum>j<D. (x ! i ! j)\<^sup>2) = 1)
           \<and> check (\<lambda>t. t) sum_list x = Inr True"
proof -
  obtain x where run: "PartialCorrToCorrCholeskyTransform_call (\<lambda>t. t) z = Inr x"
    and sq: "square D x"
    and rows: "\<And>r. r < D \<Longrightarrow> rowsq D x r = 1 \<and> 0 < x ! r ! r
                  \<and> (\<forall>c<D. r < c \<longrightarrow> x ! r ! c = 0)"
    using call_valid[OF assms] by blast
  have up: "\<forall>i<D. \<forall>j<D. i < j \<longrightarrow> x ! i ! j = 0" using rows by blast
  have dg: "\<forall>i<D. 0 < x ! i ! i" using rows by blast
  have un: "\<forall>i<D. (\<Sum>j<D. (x ! i ! j)\<^sup>2) = 1" using rows by (simp add: rowsq_def)
  have tr: "tril 0 x = x"
    by (rule square_eqI[OF tril_square[OF sq] sq]) (use up in \<open>auto simp: tril_nth[OF sq]\<close>)
  have "\<forall>i<D. sum_list (pow2 (x ! i)) = 1"
    using un by (simp add: sum_list_pow2 square_nth[OF sq])
  then have "check (\<lambda>t. t) sum_list x = Inr True"
    using check_square[OF _ sq, of "\<lambda>t. t" sum_list] assms(1) tr dg by simp
  with run sq up dg un show ?thesis by blast
qed

lemma sqrt_9: "sqrt 9 = 3"
  using real_sqrt_abs[of 3] by simp

subsection \<open>The result in single precision\<close>

lemma sqrt_25: "sqrt 25 = 5"
  using real_sqrt_abs[of 5] by simp

lemma sqrt_4096: "sqrt 4096 = 64"
  using real_sqrt_abs[of 64] by simp

lemma binary32_z1: "binary32 (8191 / 8192) = 8191 / 8192"
  using binary32_eq[of "8191 / 8192" 1 16775168] by simp

lemma binary32_z2: "binary32 (1048575 / 1048576) = 1048575 / 1048576"
  using binary32_eq[of "1048575 / 1048576" 1 16777200] by simp

lemma binary32_D1: "binary32 ((8191 / 8192)\<^sup>2) = 4095 / 4096"
  using binary32_eq[of "(8191 / 8192)\<^sup>2" 1 16773120] by (simp add: power2_eq_square)

lemma binary32_D2: "binary32 (1 / 4096) = 1 / 4096"
  using binary32_eq[of "1 / 4096" 12 8388608] by simp

lemma binary32_D3: "binary32 (1 / 64) = 1 / 64"
  using binary32_eq[of "1 / 64" 6 8388608] by simp

lemma binary32_D4: "binary32 (1048575 / 67108864) = 1048575 / 67108864"
  using binary32_eq[of "1048575 / 67108864" 7 16777200] by simp

lemma binary32_D5: "binary32 ((1048575 / 67108864)\<^sup>2) = 524287 / 2147483648"
  using binary32_eq[of "(1048575 / 67108864)\<^sup>2" 13 16777184] by (simp add: power2_eq_square)

lemma binary32_D6: "binary32 (2147483647 / 2147483648) = 1"
  using binary32_eq[of "2147483647 / 2147483648" 1 16777216] by simp

lemma call_binary32:
  "PartialCorrToCorrCholeskyTransform_call binary32 [0, 8191 / 8192, 1048575 / 1048576]
     = Inr [[1, 0, 0], [0, 1, 0], [8191 / 8192, 1048575 / 67108864, 0]]"
  by (simp add: PartialCorrToCorrCholeskyTransform_call_def Let_def sqrt_25 zeros_def
      assign_entry_def assign_col_from_def shape0_def shape1_def slice_def bind_err_def
      call_body_def pow2_def index_def broadcast2_def upt_rec numeral_3_eq_3
      binary32_0 binary32_1 binary32_D1 binary32_D2 binary32_D3 binary32_D4 binary32_D5
      binary32_D6 real_sqrt_divide sqrt_4096)

text \<open>
  Claim C3. The forward map is meant to return a matrix that the validator accepts for
  every input with entries in the open interval from \<open>-1\<close> to \<open>1\<close>. At
  \<open>z = [0, 1 - 2 ^ -13, 1 - 2 ^ -20]\<close>, three numbers of single precision in the
  interval, the sum of squares of the last row rounds to 1 before the diagonal entry is
  computed: the result has the diagonal entry \<open>x[2,2] = 0\<close> and the validator
  rejects it, whatever the order of its row sums.
\<close>

theorem call_binary32_not_valid:
  "- 1 < (0::real) \<and> (0::real) < 1 \<and> binary32 0 = 0
   \<and> - 1 < (8191 / 8192 :: real) \<and> (8191 / 8192 :: real) < 1
   \<and> binary32 (8191 / 8192) = 8191 / 8192
   \<and> - 1 < (1048575 / 1048576 :: real) \<and> (1048575 / 1048576 :: real) < 1
   \<and> binary32 (1048575 / 1048576) = 1048575 / 1048576
   \<and> PartialCorrToCorrCholeskyTransform_call binary32 [0, 8191 / 8192, 1048575 / 1048576]
       = Inr [[1, 0, 0], [0, 1, 0], [8191 / 8192, 1048575 / 67108864, 0]]
   \<and> check binary32 fsum [[1, 0, 0], [0, 1, 0], [8191 / 8192, 1048575 / 67108864, 0]]
       = Inr False"
proof -
  have sq: "square 3 [[1, 0, 0], [0, 1, 0], [8191 / 8192, 1048575 / 67108864, 0 :: real]]"
    by (simp add: square_def)
  have "\<not> (\<forall>i<3. 0 < [[1, 0, 0], [0, 1, 0], [8191 / 8192, 1048575 / 67108864, 0 :: real]] ! i ! i)"
    by (auto intro!: exI[of _ 2])
  then have "check binary32 fsum [[1, 0, 0], [0, 1, 0], [8191 / 8192, 1048575 / 67108864, 0]]
       = Inr False"
    using check_square[OF _ sq, of binary32 fsum] by simp
  then show ?thesis
    by (simp add: binary32_0 binary32_z1 binary32_z2 call_binary32)
qed

section \<open>Properties of the inverse map \<^verbatim>\<open>_inverse\<close>\<close>

lemma inverse_order_2:
  "PartialCorrToCorrCholeskyTransform_inverse [[a, b], [c, d]] = Inr [c, d / sqrt (1 - c\<^sup>2)]"
  by (simp add: PartialCorrToCorrCholeskyTransform_inverse_def shape0_def shape1_def
      col_from_def inverse_body_def pow2_def broadcast2_def bind_err_def Let_def upt_rec)

lemma inverse_order_3:
  "PartialCorrToCorrCholeskyTransform_inverse [[a0, a1, a2], [b0, b1, b2], [c0, c1, c2]]
     = Inr [b0, c0, c2 / sqrt (1 - (b0\<^sup>2 + c0\<^sup>2)), c2 / sqrt (1 - (c0\<^sup>2 + c0\<^sup>2))]"
  by (simp add: PartialCorrToCorrCholeskyTransform_inverse_def shape0_def shape1_def
      col_from_def inverse_body_def pow2_def broadcast2_def broadcast_inplace_def
      bind_err_def Let_def upt_rec)

lemma inverse_order_ge_4:
  assumes "square D x" "4 \<le> D"
  shows "PartialCorrToCorrCholeskyTransform_inverse x = Inl RuntimeError"
proof -
  have sh: "shape0 x = D" "shape1 x = D" using shape_square[OF assms(1)] assms(2) by auto
  have lx: "length x = D" using assms(1) by (simp add: square_def)
  define z0 where "z0 = map (\<lambda>row. row ! 0) (drop 1 x)"
  have c: "col_from x 1 0 = Inr z0" using sh assms(2) by (simp add: col_from_def z0_def)
  have lz: "length z0 = D - 1" by (simp add: z0_def lx)
  have "[1..<D] = 1 # [Suc 1..<D]" "[Suc 1..<D] = Suc 1 # [Suc (Suc 1)..<D]"
    using assms(2) by (simp_all add: upt_conv_Cons)
  then have r: "[1..<D] = 1 # Suc 1 # [Suc (Suc 1)..<D]" by simp
  have b2: "broadcast_inplace (+) (pow2 z0) (pow2 (drop 1 z0)) = Inl RuntimeError"
    using lz assms(2) by (auto simp: broadcast_inplace_def pow2_def)
  have "for_loop (inverse_body z0) [1..<D] None = Inl RuntimeError"
    unfolding r using b2 by (simp add: inverse_body_def bind_err_def)
  then show ?thesis
    unfolding PartialCorrToCorrCholeskyTransform_inverse_def Let_def
    using c by (simp add: sh bind_err_def)
qed

lemma call_zero: "CorrCholeskyTransform_call [0] = Inr [[1, 0], [0, 1]]"
  by (simp add: CorrCholeskyTransform_call_def TanhTransform_call_def
      PartialCorrToCorrCholeskyTransform_call_def Let_def sqrt_9 zeros_def
      assign_entry_def assign_col_from_def shape0_def shape1_def slice_def bind_err_def
      call_body_def pow2_def index_def broadcast2_def upt_rec numeral_2_eq_2)

lemma call_zero_binary32:
  "PartialCorrToCorrCholeskyTransform_call binary32 [0] = Inr [[1, 0], [0, 1]]"
  by (simp add: PartialCorrToCorrCholeskyTransform_call_def Let_def sqrt_9 zeros_def
      assign_entry_def assign_col_from_def shape0_def shape1_def slice_def bind_err_def
      call_body_def pow2_def index_def broadcast2_def upt_rec numeral_2_eq_2
      binary32_0 binary32_1)

text \<open>
  Claim C1. The inverse of the composed transform is meant to return \<open>u\<close> on the
  result of the forward map at \<open>u\<close>, a vector of \<open>D * (D - 1) / 2\<close> entries. At
  \<open>u = [0]\<close> the forward map returns the identity of order 2; \<^verbatim>\<open>_inverse\<close>
  returns the first column followed by the last diagonal entry divided by
  \<open>sqrt (1 - last_squared_x)\<close>, here \<open>[0, 1]\<close>, so the round trip returns a vector
  of two entries, not \<open>[0]\<close>.
\<close>

theorem inverse_of_call_zero:
  "CorrCholeskyTransform_call [0] = Inr [[1, 0], [0, 1]]
   \<and> PartialCorrToCorrCholeskyTransform_inverse [[1, 0], [0, 1]] = Inr [0, 1]
   \<and> (\<exists>u. bind_err (CorrCholeskyTransform_call [0]) CorrCholeskyTransform_inverse = Inr u
          \<and> length u = 2)
   \<and> bind_err (CorrCholeskyTransform_call [0]) CorrCholeskyTransform_inverse \<noteq> Inr [0]"
  by (simp add: call_zero inverse_order_2 CorrCholeskyTransform_inverse_def bind_err_def
      TanhTransform_inverse_def)

text \<open>
  The same at every order \<open>D \<ge> 2\<close>: orders 2 and 3 return \<open>2 * (D - 1)\<close> entries,
  every order from 4 on raises in the second round of the loop.
\<close>

lemma inverse_never_full_length:
  assumes "square D x" "2 \<le> D"
  shows "\<not> (\<exists>z. PartialCorrToCorrCholeskyTransform_inverse x = Inr z
              \<and> length z = D * (D - 1) div 2)"
proof -
  consider "D = 2" | "D = 3" | "4 \<le> D" using assms(2) by linarith
  then show ?thesis
  proof cases
    case 1
    then obtain a b c d where "x = [[a, b], [c, d]]"
      using assms(1) by (auto simp: square_def length_Suc_conv numeral_2_eq_2)
    then show ?thesis using 1 by (simp add: inverse_order_2)
  next
    case 2
    then obtain a0 a1 a2 b0 b1 b2 c0 c1 c2
      where "x = [[a0, a1, a2], [b0, b1, b2], [c0, c1, c2]]"
      using assms(1) by (auto simp: square_def length_Suc_conv numeral_3_eq_3)
    then show ?thesis using 2 by (simp add: inverse_order_3)
  next
    case 3
    then show ?thesis by (simp add: inverse_order_ge_4[OF assms(1)])
  qed
qed

section \<open>Properties of \<^verbatim>\<open>log_abs_det_jacobian\<close> of the vine transform\<close>

text \<open>
  What the method computes: one half times the sum, over the rows, of the logarithm of 1
  minus the sum of the squares of the entries of the row left of the diagonal.
\<close>

lemma pow2_sum_rows_tril:
  assumes "square D x"
  shows "pow2_sum_rows (tril (- 1) x) = map (\<lambda>i. \<Sum>j<i. (x ! i ! j)\<^sup>2) [0..<D]"
proof (rule nth_equalityI)
  have lx: "length x = D" using assms by (simp add: square_def)
  show "length (pow2_sum_rows (tril (- 1) x)) = length (map (\<lambda>i. \<Sum>j<i. (x ! i ! j)\<^sup>2) [0..<D])"
    by (simp add: pow2_sum_rows_def tril_def lx)
  fix i assume "i < length (pow2_sum_rows (tril (- 1) x))"
  then have i: "i < D" by (simp add: pow2_sum_rows_def tril_def lx)
  have li: "length (tril (- 1) x ! i) = D"
    using square_nth[OF tril_square[OF assms] i] .
  have lt: "length (tril (- 1) x) = D"
    using tril_square[OF assms] by (simp add: square_def)
  have "pow2_sum_rows (tril (- 1) x) ! i = sum_list (pow2 (tril (- 1) x ! i))"
    using i lt by (simp add: pow2_sum_rows_def)
  also have "\<dots> = (\<Sum>j<D. (tril (- 1) x ! i ! j)\<^sup>2)"
    by (simp only: sum_list_pow2 li)
  also have "\<dots> = (\<Sum>j<D. if j < i then (x ! i ! j)\<^sup>2 else 0)"
    by (rule sum.cong) (auto simp: tril_nth[OF assms i])
  also have "\<dots> = (\<Sum>j\<in>{..<D} \<inter> {j. j < i}. (x ! i ! j)\<^sup>2)"
    by (simp add: sum.inter_restrict)
  also have "{..<D} \<inter> {j. j < i} = {..<i}" using i by auto
  finally show "pow2_sum_rows (tril (- 1) x) ! i = map (\<lambda>i. \<Sum>j<i. (x ! i ! j)\<^sup>2) [0..<D] ! i"
    using i by simp
qed

lemma log_abs_det_jacobian_by_rows:
  assumes "square D x"
  shows "PartialCorrToCorrCholeskyTransform_log_abs_det_jacobian x z
           = (1 / 2) * (\<Sum>i<D. ln (1 - (\<Sum>j<i. (x ! i ! j)\<^sup>2)))"
proof -
  have "sum_list (map (\<lambda>s. ln (1 - s)) (map (\<lambda>i. \<Sum>j<i. (x ! i ! j)\<^sup>2) [0..<D]))
          = (\<Sum>i<D. ln (1 - (\<Sum>j<i. (x ! i ! j)\<^sup>2)))"
    by (simp add: sum_list_distinct_conv_sum_set comp_def atLeast0LessThan)
  then show ?thesis
    by (simp add: PartialCorrToCorrCholeskyTransform_log_abs_det_jacobian_def
        pow2_sum_rows_tril[OF assms])
qed

lemma sum_3: "(\<Sum>i<3::nat. f i) = f 0 + f 1 + (f 2 :: real)"
  by (simp add: numeral_3_eq_3 numeral_2_eq_2)

lemma sum_2: "(\<Sum>i<2::nat. f i) = f 0 + (f 1 :: real)"
  by (simp add: numeral_2_eq_2)

lemma call_order_3:
  "PartialCorrToCorrCholeskyTransform_call (\<lambda>t. t) [a, b, c]
     = Inr [[1, 0, 0],
            [a, sqrt (1 - a\<^sup>2), 0],
            [b, c * sqrt (1 - b\<^sup>2), sqrt (1 - (b\<^sup>2 + (c * sqrt (1 - b\<^sup>2))\<^sup>2))]]"
  by (simp add: PartialCorrToCorrCholeskyTransform_call_def Let_def sqrt_25 zeros_def
      assign_entry_def assign_col_from_def shape0_def shape1_def slice_def bind_err_def
      call_body_def pow2_def index_def broadcast2_def upt_rec numeral_3_eq_3)

lemma sqrt_5_9: "sqrt (5 / 9) = sqrt 5 / 3"
  using real_sqrt_abs[of 3] by (simp add: real_sqrt_divide)

lemma sqrt_4_9: "sqrt (4 / 9) = 2 / 3"
  using real_sqrt_abs[of 3] real_sqrt_abs[of 2] by (simp add: real_sqrt_divide)

lemma call_example:
  "PartialCorrToCorrCholeskyTransform_call (\<lambda>t. t) [0, 2 / 3, 1 / sqrt 5]
     = Inr [[1, 0, 0], [0, 1, 0], [2 / 3, 1 / 3, 2 / 3]]"
proof -
  have a: "1 - (2 / 3 :: real)\<^sup>2 = 5 / 9" by (simp add: power2_eq_square)
  have b: "1 / sqrt 5 * (sqrt 5 / 3) = (1 / 3 :: real)" by simp
  have c: "1 - ((2 / 3)\<^sup>2 + (1 / 3 :: real)\<^sup>2) = 4 / 9" by (simp add: power2_eq_square)
  show ?thesis
    unfolding call_order_3 a sqrt_5_9 b c sqrt_4_9 by simp
qed

lemma jacobian_example:
  "PartialCorrToCorrCholeskyTransform_log_abs_det_jacobian
     [[1, 0, 0], [0, 1, 0], [2 / 3, 1 / 3, 2 / 3]] z = (1 / 2) * ln (4 / 9)"
  by (simp add: PartialCorrToCorrCholeskyTransform_log_abs_det_jacobian_def
      pow2_sum_rows_def pow2_def tril_def upt_rec power2_eq_square)

lemma per_entry_example:
  "(\<Sum>i<3::nat. \<Sum>j<i.
       ln (1 - ([[1, 0, 0], [0, 1, 0], [2 / 3, 1 / 3, 2 / 3 :: real]] ! i ! j)\<^sup>2))
     = ln (5 / 9) + ln (8 / 9)"
  by (simp add: sum_3 lessThan_Suc power2_eq_square numeral_2_eq_2)

lemma ln_4_9_ne_per_entry: "ln (4 / 9 :: real) \<noteq> ln (5 / 9) + ln (8 / 9)"
proof -
  have "ln (5 / 9 :: real) + ln (8 / 9) = ln (5 / 9 * (8 / 9))"
    by (rule ln_mult_pos[symmetric]) simp_all
  also have "\<dots> \<noteq> ln (4 / 9)"
    by (subst ln_inj_iff) simp_all
  finally show ?thesis by simp
qed

lemma ln_4_9_ne_5_9: "ln (4 / 9 :: real) \<noteq> ln (5 / 9)"
  by (subst ln_inj_iff) simp_all

text \<open>
  Claim C2. The method is meant to return the logarithm of the absolute determinant of
  the Jacobian of the forward map, which the claim writes as one half times the sum of
  \<open>ln (1 - t\<^sup>2)\<close> over the entries \<open>t\<close> below the diagonal. At
  \<open>z = [0, 2/3, 1/sqrt 5]\<close> the forward map returns the factor with last row
  \<open>[2/3, 1/3, 2/3]\<close>. The method returns \<open>ln (4/9) / 2\<close> there. The claim's sum
  is \<open>(ln (5/9) + ln (8/9)) / 2\<close>. The entries below the diagonal, as functions of
  \<open>z\<close>, have a triangular Jacobian (\<open>x[1,0]\<close> does not depend on \<open>z[1]\<close>,
  \<open>z[2]\<close>, nor \<open>x[2,0]\<close> on \<open>z[2]\<close>) with the diagonal \<open>1\<close>, \<open>1\<close>,
  \<open>sqrt (5/9)\<close>, so the logarithm of its determinant is \<open>ln (5/9) / 2\<close>. The value
  of the method is neither.
\<close>

theorem log_abs_det_jacobian_at_example:
  "PartialCorrToCorrCholeskyTransform_call (\<lambda>t. t) [0, 2 / 3, 1 / sqrt 5]
     = Inr [[1, 0, 0], [0, 1, 0], [2 / 3, 1 / 3, 2 / 3]]
   \<and> PartialCorrToCorrCholeskyTransform_log_abs_det_jacobian
       [[1, 0, 0], [0, 1, 0], [2 / 3, 1 / 3, 2 / 3]] [0, 2 / 3, 1 / sqrt 5]
     = (1 / 2) * ln (4 / 9)
   \<and> (1 / 2) * ln (4 / 9)
     \<noteq> (1 / 2) * (\<Sum>i<3. \<Sum>j<i.
           ln (1 - ([[1, 0, 0], [0, 1, 0], [2 / 3, 1 / 3, 2 / 3 :: real]] ! i ! j)\<^sup>2))
   \<and> (\<forall>u v. projr (PartialCorrToCorrCholeskyTransform_call (\<lambda>t. t) [0, u, v]) ! 1 ! 0 = 0)
   \<and> (\<forall>v. projr (PartialCorrToCorrCholeskyTransform_call (\<lambda>t. t) [0, 2 / 3, v]) ! 2 ! 0
          = 2 / 3)
   \<and> DERIV (\<lambda>t. projr (PartialCorrToCorrCholeskyTransform_call (\<lambda>t. t)
                 [t, 2 / 3, 1 / sqrt 5]) ! 1 ! 0) 0 :> 1
   \<and> DERIV (\<lambda>t. projr (PartialCorrToCorrCholeskyTransform_call (\<lambda>t. t)
                 [0, t, 1 / sqrt 5]) ! 2 ! 0) (2 / 3) :> 1
   \<and> DERIV (\<lambda>t. projr (PartialCorrToCorrCholeskyTransform_call (\<lambda>t. t)
                 [0, 2 / 3, t]) ! 2 ! 1) (1 / sqrt 5) :> sqrt (5 / 9)
   \<and> ln (1 * 1 * sqrt (5 / 9)) = (1 / 2) * ln (5 / 9)
   \<and> (1 / 2) * ln (4 / 9) \<noteq> (1 / 2) * ln (5 / 9 :: real)"
proof (intro conjI)
  show "PartialCorrToCorrCholeskyTransform_call (\<lambda>t. t) [0, 2 / 3, 1 / sqrt 5]
     = Inr [[1, 0, 0], [0, 1, 0], [2 / 3, 1 / 3, 2 / 3]]"
    by (rule call_example)
  show "PartialCorrToCorrCholeskyTransform_log_abs_det_jacobian
       [[1, 0, 0], [0, 1, 0], [2 / 3, 1 / 3, 2 / 3]] [0, 2 / 3, 1 / sqrt 5]
     = (1 / 2) * ln (4 / 9)"
    by (rule jacobian_example)
  show "(1 / 2) * ln (4 / 9)
     \<noteq> (1 / 2) * (\<Sum>i<3. \<Sum>j<i.
           ln (1 - ([[1, 0, 0], [0, 1, 0], [2 / 3, 1 / 3, 2 / 3 :: real]] ! i ! j)\<^sup>2))"
    unfolding per_entry_example using ln_4_9_ne_per_entry by simp
  show "\<forall>u v. projr (PartialCorrToCorrCholeskyTransform_call (\<lambda>t. t) [0, u, v]) ! 1 ! 0 = 0"
    by (simp add: call_order_3)
  show "\<forall>v. projr (PartialCorrToCorrCholeskyTransform_call (\<lambda>t. t) [0, 2 / 3, v]) ! 2 ! 0
          = 2 / 3"
    by (simp add: call_order_3)
  show "DERIV (\<lambda>t. projr (PartialCorrToCorrCholeskyTransform_call (\<lambda>t. t)
                 [t, 2 / 3, 1 / sqrt 5]) ! 1 ! 0) 0 :> 1"
    by (simp add: call_order_3)
  show "DERIV (\<lambda>t. projr (PartialCorrToCorrCholeskyTransform_call (\<lambda>t. t)
                 [0, t, 1 / sqrt 5]) ! 2 ! 0) (2 / 3) :> 1"
    by (simp add: call_order_3)
  have "DERIV (\<lambda>t. t * sqrt (1 - (2 / 3)\<^sup>2)) (1 / sqrt 5) :> sqrt (5 / 9)"
    by (auto intro!: derivative_eq_intros simp: power2_eq_square)
  then show "DERIV (\<lambda>t. projr (PartialCorrToCorrCholeskyTransform_call (\<lambda>t. t)
                 [0, 2 / 3, t]) ! 2 ! 1) (1 / sqrt 5) :> sqrt (5 / 9)"
    by (simp add: call_order_3)
  show "ln (1 * 1 * sqrt (5 / 9)) = (1 / 2) * ln (5 / 9)"
    by (simp add: ln_sqrt)
  show "(1 / 2) * ln (4 / 9) \<noteq> (1 / 2) * ln (5 / 9 :: real)"
    using ln_4_9_ne_5_9 by simp
qed

end
